theory Spec2Isabelle
  imports Main "HOL-Library.Word"
begin

unbundle bit_operations_syntax

text \<open>
  A shallow embedding of the webhook authentication and order-lifecycle code of the
  Sympla middleware: \<^verbatim>\<open>SignatureValidator\<close> (src/utils/signature.ts),
  \<^verbatim>\<open>TokenGenerator\<close> (src/utils/tokenGenerator.ts) and \<^verbatim>\<open>WebhookHandler\<close>
  (src/handlers/webhookHandler.ts), with the functions of Node and of the language that
  they call: HMAC-SHA256, hexadecimal and base64url text, UTF-8, \<^verbatim>\<open>trim\<close>, \<^verbatim>\<open>split\<close>
  and JSON text of a token payload. Every source function is a function of its arguments,
  of the secret its object was built with, and of what it reads from outside (the clock,
  the identifier generator, the gateway); a function that mutates the store returns the
  new store. The definitions come first, then the lemmas, then the claims.
\<close>

section \<open>Values of the runtime\<close>

text \<open>
  A JavaScript string is modelled as a \<^typ>\<open>string\<close> whose characters are code units
  below 256 (the Latin-1 range, which is what Node's HTTP parser delivers for a header
  value). A \<^verbatim>\<open>Buffer\<close> is a list of bytes, also written with \<^typ>\<open>char\<close>.
\<close>

type_synonym buffer = "char list"

text \<open>\<^verbatim>\<open>Buffer.from(str)\<close> and \<^verbatim>\<open>hmac.update(str)\<close>: the UTF-8 encoding of a string.\<close>

definition utf8_char :: "char \<Rightarrow> buffer" where
  "utf8_char c =
     (let n = (of_char c :: nat)
      in if n < 128 then [c] else [char_of (192 + n div 64), char_of (128 + n mod 64)])"

definition utf8_encode :: "string \<Rightarrow> buffer" where
  "utf8_encode s = concat (map utf8_char s)"

section \<open>SHA-256 and HMAC (Node's \<^verbatim>\<open>crypto.createHmac('sha256', key)\<close>)\<close>

type_synonym word32 = "32 word"

text \<open>The round constants of FIPS 180-4, section 4.2.2, eight to a row.\<close>

definition K256 :: "word32 list" where
  "K256 =
     [0x428a2f98, 0x71374491, 0xb5c0fbcf, 0xe9b5dba5, 0x3956c25b, 0x59f111f1, 0x923f82a4, 0xab1c5ed5] @
     [0xd807aa98, 0x12835b01, 0x243185be, 0x550c7dc3, 0x72be5d74, 0x80deb1fe, 0x9bdc06a7, 0xc19bf174] @
     [0xe49b69c1, 0xefbe4786, 0x0fc19dc6, 0x240ca1cc, 0x2de92c6f, 0x4a7484aa, 0x5cb0a9dc, 0x76f988da] @
     [0x983e5152, 0xa831c66d, 0xb00327c8, 0xbf597fc7, 0xc6e00bf3, 0xd5a79147, 0x06ca6351, 0x14292967] @
     [0x27b70a85, 0x2e1b2138, 0x4d2c6dfc, 0x53380d13, 0x650a7354, 0x766a0abb, 0x81c2c92e, 0x92722c85] @
     [0xa2bfe8a1, 0xa81a664b, 0xc24b8b70, 0xc76c51a3, 0xd192e819, 0xd6990624, 0xf40e3585, 0x106aa070] @
     [0x19a4c116, 0x1e376c08, 0x2748774c, 0x34b0bcb5, 0x391c0cb3, 0x4ed8aa4a, 0x5b9cca4f, 0x682e6ff3] @
     [0x748f82ee, 0x78a5636f, 0x84c87814, 0x8cc70208, 0x90befffa, 0xa4506ceb, 0xbef9a3f7, 0xc67178f2]"

type_synonym sha_state =
  "word32 \<times> word32 \<times> word32 \<times> word32 \<times> word32 \<times> word32 \<times> word32 \<times> word32"

definition H256 :: sha_state where
  "H256 = (0x6a09e667, 0xbb67ae85, 0x3c6ef372, 0xa54ff53a,
           0x510e527f, 0x9b05688c, 0x1f83d9ab, 0x5be0cd19)"

definition Ch :: "word32 \<Rightarrow> word32 \<Rightarrow> word32 \<Rightarrow> word32" where
  "Ch x y z = (x AND y) XOR (NOT x AND z)"

definition Maj :: "word32 \<Rightarrow> word32 \<Rightarrow> word32 \<Rightarrow> word32" where
  "Maj x y z = (x AND y) XOR (x AND z) XOR (y AND z)"

definition bsig0 :: "word32 \<Rightarrow> word32" where
  "bsig0 x = word_rotr 2 x XOR word_rotr 13 x XOR word_rotr 22 x"

definition bsig1 :: "word32 \<Rightarrow> word32" where
  "bsig1 x = word_rotr 6 x XOR word_rotr 11 x XOR word_rotr 25 x"

definition ssig0 :: "word32 \<Rightarrow> word32" where
  "ssig0 x = word_rotr 7 x XOR word_rotr 18 x XOR drop_bit 3 x"

definition ssig1 :: "word32 \<Rightarrow> word32" where
  "ssig1 x = word_rotr 17 x XOR word_rotr 19 x XOR drop_bit 10 x"

definition be32 :: "buffer \<Rightarrow> word32" where
  "be32 bs = foldl (\<lambda>w b. push_bit 8 w OR of_nat (of_char b)) 0 bs"

definition bytes_of_word :: "word32 \<Rightarrow> buffer" where
  "bytes_of_word w =
     [char_of (unat (drop_bit 24 w)), char_of (unat (drop_bit 16 w)),
      char_of (unat (drop_bit 8 w)), char_of (unat w)]"

definition blocks :: "nat \<Rightarrow> 'a list \<Rightarrow> 'a list list" where
  "blocks n xs = map (\<lambda>i. take n (drop (i * n) xs)) [0..<length xs div n]"

definition be64 :: "nat \<Rightarrow> buffer" where
  "be64 n = map (\<lambda>i. char_of (n div 256 ^ (7 - i))) [0..<8]"

definition pad :: "buffer \<Rightarrow> buffer" where
  "pad m = m @ [char_of (128::nat)]
             @ replicate ((119 - length m mod 64) mod 64) (char_of (0::nat))
             @ be64 (8 * length m)"

primrec extend :: "nat \<Rightarrow> word32 list \<Rightarrow> word32 list" where
  "extend 0 w = w"
| "extend (Suc k) w =
     (let t = length w
      in extend k (w @ [ssig1 (w ! (t - 2)) + w ! (t - 7) + ssig0 (w ! (t - 15)) + w ! (t - 16)]))"

definition schedule :: "buffer \<Rightarrow> word32 list" where
  "schedule block = extend 48 (map be32 (blocks 4 block))"

fun round :: "sha_state \<Rightarrow> word32 \<times> word32 \<Rightarrow> sha_state" where
  "round (a, b, c, d, e, f, g, h) (k, w) =
     (let T1 = h + bsig1 e + Ch e f g + k + w;
          T2 = bsig0 a + Maj a b c
      in (T1 + T2, a, b, c, d + T1, e, f, g))"

fun add_state :: "sha_state \<Rightarrow> sha_state \<Rightarrow> sha_state" where
  "add_state (a, b, c, d, e, f, g, h) (a', b', c', d', e', f', g', h') =
     (a + a', b + b', c + c', d + d', e + e', f + f', g + g', h + h')"

definition compress :: "sha_state \<Rightarrow> buffer \<Rightarrow> sha_state" where
  "compress H block = add_state H (foldl round H (zip K256 (schedule block)))"

fun digest_bytes :: "sha_state \<Rightarrow> buffer" where
  "digest_bytes (a, b, c, d, e, f, g, h) =
     concat (map bytes_of_word [a, b, c, d, e, f, g, h])"

definition sha256 :: "buffer \<Rightarrow> buffer" where
  "sha256 m = digest_bytes (foldl compress H256 (blocks 64 (pad m)))"

definition xor_byte :: "nat \<Rightarrow> char \<Rightarrow> char" where
  "xor_byte n c = char_of ((of_char c :: nat) XOR n)"

definition hmac_sha256 :: "buffer \<Rightarrow> buffer \<Rightarrow> buffer" where
  "hmac_sha256 key msg =
     (let k0 = (if length key > 64 then sha256 key else key);
          k = k0 @ replicate (64 - length k0) (char_of (0::nat))
      in sha256 (map (xor_byte 0x5c) k @ sha256 (map (xor_byte 0x36) k @ msg)))"

section \<open>Hexadecimal text (\<^verbatim>\<open>digest('hex')\<close> and \<^verbatim>\<open>Buffer.from(s, 'hex')\<close>)\<close>

definition hex_digit :: "nat \<Rightarrow> char" where
  "hex_digit n = (if n < 10 then char_of (48 + n) else char_of (87 + n))"

definition hex_byte :: "char \<Rightarrow> string" where
  "hex_byte b = [hex_digit ((of_char b :: nat) div 16), hex_digit ((of_char b :: nat) mod 16)]"

definition hex_encode :: "buffer \<Rightarrow> string" where
  "hex_encode bs = concat (map hex_byte bs)"

definition unhex :: "char \<Rightarrow> nat option" where
  "unhex c =
     (let n = (of_char c :: nat)
      in if 48 \<le> n \<and> n \<le> 57 then Some (n - 48)
         else if 97 \<le> n \<and> n \<le> 102 then Some (n - 87)
         else if 65 \<le> n \<and> n \<le> 70 then Some (n - 55)
         else None)"

text \<open>
  Node decodes pairs of hexadecimal digits and stops, keeping what it has, at the first
  pair that holds another character; a last single character is dropped.
\<close>

fun hex_decode :: "string \<Rightarrow> buffer" where
  "hex_decode (a # b # rest) =
     (case (unhex a, unhex b) of
        (Some x, Some y) \<Rightarrow> char_of (16 * x + y) # hex_decode rest
      | _ \<Rightarrow> [])"
| "hex_decode _ = []"

section \<open>String operations of the signature check\<close>

text \<open>\<^verbatim>\<open>String.prototype.trim\<close>: the white space and line terminators below 256.\<close>

definition is_space :: "char \<Rightarrow> bool" where
  "is_space c = ((of_char c :: nat) \<in> {9, 10, 11, 12, 13, 32, 160})"

definition trim :: "string \<Rightarrow> string" where
  "trim s = rev (dropWhile is_space (rev (dropWhile is_space s)))"

definition lower_ascii :: "char \<Rightarrow> char" where
  "lower_ascii c =
     (let n = (of_char c :: nat) in if 65 \<le> n \<and> n \<le> 90 then char_of (n + 32) else c)"

text \<open>\<^verbatim>\<open>signature.replace(/^sha256=/i, '')\<close>\<close>

definition strip_sha256_prefix :: "string \<Rightarrow> string" where
  "strip_sha256_prefix s =
     (if map lower_ascii (take 7 s) = ''sha256='' then drop 7 s else s)"

text \<open>\<^verbatim>\<open>crypto.timingSafeEqual\<close> throws (\<open>None\<close>) on buffers of different lengths.\<close>

definition timingSafeEqual :: "buffer \<Rightarrow> buffer \<Rightarrow> bool option" where
  "timingSafeEqual a b = (if length a \<noteq> length b then None else Some (a = b))"

section \<open>SignatureValidator (src/utils/signature.ts)\<close>

text \<open>The header is \<open>None\<close> when it is absent (\<^verbatim>\<open>undefined\<close> or \<^verbatim>\<open>null\<close>).\<close>

definition validateSignature :: "string \<Rightarrow> buffer \<Rightarrow> string option \<Rightarrow> bool" where
  "validateSignature secret payload signature =
     (case signature of
        None \<Rightarrow> False
      | Some sig \<Rightarrow>
          if sig = [] then False
          else
            let receivedSignature = trim (strip_sha256_prefix sig);
                expectedSignature = hex_encode (hmac_sha256 (utf8_encode secret) payload);
                receivedBuffer = hex_decode receivedSignature;
                expectedBuffer = hex_decode expectedSignature
            in if length receivedBuffer \<noteq> length expectedBuffer then False
               else (case timingSafeEqual receivedBuffer expectedBuffer of
                       Some isValid \<Rightarrow> isValid
                     | None \<Rightarrow> False))"






section \<open>Base64url text (\<^verbatim>\<open>digest('base64url')\<close>, \<^verbatim>\<open>toString('base64url')\<close>)\<close>

definition b64_char :: "nat \<Rightarrow> char" where
  "b64_char n =
     (if n < 26 then char_of (65 + n)
      else if n < 52 then char_of (71 + n)
      else if n < 62 then char_of (n - 4)
      else if n = 62 then CHR ''-''
      else CHR ''_'')"

fun base64url_encode :: "buffer \<Rightarrow> string" where
  "base64url_encode (a # b # c # rest) =
     (let x = (of_char a :: nat); y = (of_char b :: nat); z = (of_char c :: nat)
      in [b64_char (x div 4), b64_char ((x mod 4) * 16 + y div 16),
          b64_char ((y mod 16) * 4 + z div 64), b64_char (z mod 64)])
     @ base64url_encode rest"
| "base64url_encode [a, b] =
     (let x = (of_char a :: nat); y = (of_char b :: nat)
      in [b64_char (x div 4), b64_char ((x mod 4) * 16 + y div 16), b64_char ((y mod 16) * 4)])"
| "base64url_encode [a] =
     (let x = (of_char a :: nat) in [b64_char (x div 4), b64_char ((x mod 4) * 16)])"
| "base64url_encode [] = []"

definition b64_index :: "char \<Rightarrow> nat option" where
  "b64_index c =
     (let n = (of_char c :: nat)
      in if 65 \<le> n \<and> n \<le> 90 then Some (n - 65)
         else if 97 \<le> n \<and> n \<le> 122 then Some (n - 71)
         else if 48 \<le> n \<and> n \<le> 57 then Some (n + 4)
         else if n = 45 \<or> n = 43 then Some 62
         else if n = 95 \<or> n = 47 then Some 63
         else None)"

text \<open>
  \<^verbatim>\<open>Buffer.from(s, 'base64url')\<close> on unpadded text over the alphabet. Node's decoder is
  lenient on any other text, in a way that depends on its version: there the model
  answers \<open>None\<close>, which stands for text outside the model, not for an exception.
\<close>

fun base64url_decode :: "string \<Rightarrow> buffer option" where
  "base64url_decode (p # q # r # s # rest) =
     (case (b64_index p, b64_index q, b64_index r, b64_index s) of
        (Some i, Some j, Some k, Some l) \<Rightarrow>
          map_option
            (\<lambda>t. char_of (i * 4 + j div 16) # char_of ((j mod 16) * 16 + k div 4)
                   # char_of ((k mod 4) * 64 + l) # t)
            (base64url_decode rest)
      | _ \<Rightarrow> None)"
| "base64url_decode [p, q, r] =
     (case (b64_index p, b64_index q, b64_index r) of
        (Some i, Some j, Some k) \<Rightarrow>
          Some [char_of (i * 4 + j div 16), char_of ((j mod 16) * 16 + k div 4)]
      | _ \<Rightarrow> None)"
| "base64url_decode [p, q] =
     (case (b64_index p, b64_index q) of
        (Some i, Some j) \<Rightarrow> Some [char_of (i * 4 + j div 16)]
      | _ \<Rightarrow> None)"
| "base64url_decode [p] = None"
| "base64url_decode [] = Some []"

text \<open>
  \<^verbatim>\<open>buffer.toString()\<close>: UTF-8 decoding, for the bytes that encode a string of code units
  below 256; \<open>None\<close> on other bytes, which are outside the model.
\<close>

fun utf8_decode :: "buffer \<Rightarrow> string option" where
  "utf8_decode [] = Some []"
| "utf8_decode [a] = (if (of_char a :: nat) < 128 then Some [a] else None)"
| "utf8_decode (a # b # rest) =
     (let x = (of_char a :: nat); y = (of_char b :: nat)
      in if x < 128 then map_option ((#) a) (utf8_decode (b # rest))
         else if (x = 194 \<or> x = 195) \<and> 128 \<le> y \<and> y < 192
           then map_option ((#) (char_of ((x - 192) * 64 + (y - 128)))) (utf8_decode rest)
         else None)"

section \<open>JSON text of a token payload\<close>

record DonationToken =
  orderId :: string
  eventId :: string
  timestamp :: int
  exp :: int

definition dquote :: char where
  "dquote = CHR 0x22"

definition backslash :: char where
  "backslash = CHR 0x5C"

text \<open>\<^verbatim>\<open>JSON.stringify\<close> of a string: the escapes of \<^verbatim>\<open>QuoteJSONString\<close>.\<close>

definition json_escape_char :: "char \<Rightarrow> string" where
  "json_escape_char c =
     (let n = (of_char c :: nat)
      in if c = dquote then [backslash, dquote]
         else if c = backslash then [backslash, backslash]
         else if n = 8 then [backslash, CHR ''b'']
         else if n = 12 then [backslash, CHR ''f'']
         else if n = 10 then [backslash, CHR ''n'']
         else if n = 13 then [backslash, CHR ''r'']
         else if n = 9 then [backslash, CHR ''t'']
         else if n < 32 then [backslash, CHR ''u'', CHR ''0'', CHR ''0''] @ hex_byte c
         else [c])"

definition json_quote :: "string \<Rightarrow> string" where
  "json_quote s = dquote # concat (map json_escape_char s) @ [dquote]"

text \<open>
  Decimal text of an integral number (\<^verbatim>\<open>Number::toString\<close> below \<open>10^21\<close> in absolute
  value, where every reading of the clock lies).
\<close>

fun show_nat :: "nat \<Rightarrow> string" where
  "show_nat n =
     (if n < 10 then [char_of (48 + n)] else show_nat (n div 10) @ [char_of (48 + n mod 10)])"

declare show_nat.simps [simp del]

definition show_int :: "int \<Rightarrow> string" where
  "show_int i = (if i < 0 then CHR ''-'' # show_nat (nat (- i)) else show_nat (nat i))"

definition JSON_stringify :: "DonationToken \<Rightarrow> string" where
  "JSON_stringify payload =
     ''{'' @ json_quote ''orderId'' @ '':'' @ json_quote (orderId payload)
     @ '','' @ json_quote ''eventId'' @ '':'' @ json_quote (eventId payload)
     @ '','' @ json_quote ''timestamp'' @ '':'' @ show_int (timestamp payload)
     @ '','' @ json_quote ''exp'' @ '':'' @ show_int (exp payload)
     @ ''}''"

text \<open>
  \<^verbatim>\<open>JSON.parse\<close> is modelled on the texts of this one shape: an object with the four
  members in this order and no white space, strings with any JSON escape of a code unit
  below 256, integers in plain decimal. On these \<^verbatim>\<open>JSON.parse\<close> yields the payload
  below. \<open>None\<close> stands for every other text (other JSON values and text that is not
  JSON), which is outside the model.
\<close>

definition unescape :: "char \<Rightarrow> char option" where
  "unescape e =
     (if e = dquote then Some dquote
      else if e = backslash then Some backslash
      else if e = CHR ''/'' then Some CHR ''/''
      else if e = CHR ''b'' then Some (char_of (8::nat))
      else if e = CHR ''f'' then Some (char_of (12::nat))
      else if e = CHR ''n'' then Some (char_of (10::nat))
      else if e = CHR ''r'' then Some (char_of (13::nat))
      else if e = CHR ''t'' then Some (char_of (9::nat))
      else None)"

definition hex4 :: "char \<Rightarrow> char \<Rightarrow> char \<Rightarrow> char \<Rightarrow> nat option" where
  "hex4 h1 h2 h3 h4 =
     (case (unhex h1, unhex h2, unhex h3, unhex h4) of
        (Some a, Some b, Some c, Some d) \<Rightarrow> Some (((a * 16 + b) * 16 + c) * 16 + d)
      | _ \<Rightarrow> None)"

fun parse_string_body :: "string \<Rightarrow> (string \<times> string) option" where
  "parse_string_body [] = None"
| "parse_string_body (c # rest) =
     (if c = dquote then Some ([], rest)
      else if c = backslash then
        (case rest of
           [] \<Rightarrow> None
         | e # rest' \<Rightarrow>
             if e = CHR ''u'' then
               (case rest' of
                  h1 # h2 # h3 # h4 # rest'' \<Rightarrow>
                    (case hex4 h1 h2 h3 h4 of
                       Some v \<Rightarrow>
                         if v < 256
                         then map_option (\<lambda>(s, r). (char_of v # s, r)) (parse_string_body rest'')
                         else None
                     | None \<Rightarrow> None)
                | _ \<Rightarrow> None)
             else
               (case unescape e of
                  Some ch \<Rightarrow> map_option (\<lambda>(s, r). (ch # s, r)) (parse_string_body rest')
                | None \<Rightarrow> None))
      else if (of_char c :: nat) < 32 then None
      else map_option (\<lambda>(s, r). (c # s, r)) (parse_string_body rest))"

definition is_digit :: "char \<Rightarrow> bool" where
  "is_digit c = (48 \<le> (of_char c :: nat) \<and> (of_char c :: nat) \<le> 57)"

definition digits_value :: "string \<Rightarrow> nat" where
  "digits_value ds = foldl (\<lambda>a d. 10 * a + ((of_char d :: nat) - 48)) 0 ds"

definition parse_nat :: "string \<Rightarrow> (nat \<times> string) option" where
  "parse_nat s =
     (let ds = takeWhile is_digit s; rest = dropWhile is_digit s
      in if ds = [] \<or> (hd ds = CHR ''0'' \<and> 1 < length ds) then None
         else Some (digits_value ds, rest))"

definition parse_int :: "string \<Rightarrow> (int \<times> string) option" where
  "parse_int s =
     (if s \<noteq> [] \<and> hd s = CHR ''-'' then
        (case parse_nat (tl s) of
           Some (n, rest) \<Rightarrow> if n = 0 then None else Some (- int n, rest)
         | None \<Rightarrow> None)
      else map_option (\<lambda>(n, rest). (int n, rest)) (parse_nat s))"

definition expect :: "string \<Rightarrow> string \<Rightarrow> string option" where
  "expect lit s = (if take (length lit) s = lit then Some (drop (length lit) s) else None)"

definition JSON_parse :: "string \<Rightarrow> DonationToken option" where
  "JSON_parse s =
     Option.bind (expect (''{'' @ json_quote ''orderId'' @ '':'' @ [dquote]) s) (\<lambda>s1.
     Option.bind (parse_string_body s1) (\<lambda>(oid, s2).
     Option.bind (expect ('','' @ json_quote ''eventId'' @ '':'' @ [dquote]) s2) (\<lambda>s3.
     Option.bind (parse_string_body s3) (\<lambda>(eid, s4).
     Option.bind (expect ('','' @ json_quote ''timestamp'' @ '':'') s4) (\<lambda>s5.
     Option.bind (parse_int s5) (\<lambda>(ts, s6).
     Option.bind (expect ('','' @ json_quote ''exp'' @ '':'') s6) (\<lambda>s7.
     Option.bind (parse_int s7) (\<lambda>(ex, s8).
     if s8 = ''}''
     then Some \<lparr>orderId = oid, eventId = eid, timestamp = ts, exp = ex\<rparr>
     else None))))))))"

section \<open>TokenGenerator (src/utils/tokenGenerator.ts)\<close>

definition signPayload :: "string \<Rightarrow> string \<Rightarrow> string" where
  "signPayload secret payload =
     base64url_encode (hmac_sha256 (utf8_encode secret) (utf8_encode payload))"

text \<open>
  \<^verbatim>\<open>generateDonationToken\<close> reads the clock twice: \<open>now1\<close> for \<^verbatim>\<open>timestamp\<close> and
  \<open>now2\<close> for \<^verbatim>\<open>exp\<close>.
\<close>

definition generateDonationToken :: "string \<Rightarrow> int \<Rightarrow> int \<Rightarrow> string \<Rightarrow> string \<Rightarrow> string" where
  "generateDonationToken secret now1 now2 oid eid =
     (let payload = \<lparr>orderId = oid, eventId = eid, timestamp = now1,
                     exp = now2 + (24 * 60 * 60 * 1000)\<rparr>;
          encodedPayload = base64url_encode (utf8_encode (JSON_stringify payload));
          signature = signPayload secret encodedPayload
      in encodedPayload @ ''.'' @ signature)"

text \<open>\<^verbatim>\<open>token.split('.')\<close>\<close>

fun split_on :: "char \<Rightarrow> string \<Rightarrow> string list" where
  "split_on sep [] = [[]]"
| "split_on sep (c # cs) =
     (if c = sep then [] # split_on sep cs
      else (case split_on sep cs of
              [] \<Rightarrow> [[c]]
            | p # ps \<Rightarrow> (c # p) # ps))"

text \<open>
  The result of \<^verbatim>\<open>validateToken\<close>: \<^verbatim>\<open>null\<close>, the payload, or \<open>Unmodelled\<close> when the
  signature is right and the payload segment is text outside the model of the decoders.
\<close>

datatype token_result = Null | Payload DonationToken | Unmodelled

definition decodePayload :: "string \<Rightarrow> DonationToken option" where
  "decodePayload encodedPayload =
     Option.bind (base64url_decode encodedPayload) (\<lambda>bytes.
     Option.bind (utf8_decode bytes) JSON_parse)"

text \<open>
  Every exception inside \<^verbatim>\<open>validateToken\<close> is caught and gives \<^verbatim>\<open>null\<close>: with no
  separator \<^verbatim>\<open>signature\<close> is \<^verbatim>\<open>undefined\<close> and \<^verbatim>\<open>Buffer.from\<close> throws; on buffers
  of different lengths \<^verbatim>\<open>timingSafeEqual\<close> throws. The segments after the second are
  dropped by the destructuring.
\<close>

definition validateToken :: "string \<Rightarrow> int \<Rightarrow> string \<Rightarrow> token_result" where
  "validateToken secret now token =
     (case split_on CHR ''.'' token of
        encodedPayload # signature # _ \<Rightarrow>
          (let expectedSignature = signPayload secret encodedPayload
           in case timingSafeEqual (utf8_encode signature) (utf8_encode expectedSignature) of
                None \<Rightarrow> Null
              | Some False \<Rightarrow> Null
              | Some True \<Rightarrow>
                  (case decodePayload encodedPayload of
                     None \<Rightarrow> Unmodelled
                   | Some payload \<Rightarrow> if now > exp payload then Null else Payload payload))
      | _ \<Rightarrow> Null)"

section \<open>Types of the middleware (src/types/index.ts)\<close>

text \<open>
  Amounts are JavaScript numbers that the handler only copies: their type is the
  parameter \<open>'n\<close>. The fields that the source marks optional are options.
\<close>

record 'n SymplaOrderData =
  order_identifier :: string
  event_id :: string
  event_name :: string
  total_order_amount :: 'n
  buyer_first_name :: string
  buyer_last_name :: string
  buyer_email :: string
  order_status :: string

record 'n SymplaWebhookPayload =
  event :: string
  data :: "'n SymplaOrderData"

record AgroforestreeApiRequest =
  sourcePlatform :: string
  sourceOrderId :: string
  sourceEventId :: string
  donorName :: string
  donorEmail :: string
  donationValue :: int
  campaignId :: string

record AgroforestreeApiResponse =
  donationId :: string
  response_status :: string
  createdAt :: string
  certificateUrl :: "string option"

datatype status =
  PENDING_USER_ACTION | CONSENT_GIVEN | COMPLETED | DECLINED | CANCELLED | REFUNDED

record 'n DonationAttempt =
  attempt_id :: string
  sympla_order_id :: string
  sympla_event_id :: string
  status :: status
  donation_token :: string
  created_at :: int
  updated_at :: int
  donor_name :: "string option"
  donor_email :: "string option"
  attempt_event_name :: "string option"
  order_amount :: "'n option"

section \<open>The store of donation attempts\<close>

text \<open>
  \<^verbatim>\<open>donationAttempts\<close> is a JavaScript \<^verbatim>\<open>Map\<close>: its entries in insertion order.
  \<^verbatim>\<open>set\<close> on a key that is present replaces the value where it stands, and appends
  otherwise.
\<close>

type_synonym 'n store = "(string \<times> 'n DonationAttempt) list"

fun Map_set :: "'k \<Rightarrow> 'v \<Rightarrow> ('k \<times> 'v) list \<Rightarrow> ('k \<times> 'v) list" where
  "Map_set k v [] = [(k, v)]"
| "Map_set k v ((k', v') # s) =
     (if k' = k then (k, v) # s else (k', v') # Map_set k v s)"

fun Map_get :: "'k \<Rightarrow> ('k \<times> 'v) list \<Rightarrow> 'v option" where
  "Map_get k [] = None"
| "Map_get k ((k', v') # s) = (if k' = k then Some v' else Map_get k s)"

definition getDonations :: "'n store \<Rightarrow> 'n DonationAttempt list" where
  "getDonations donationAttempts = map snd donationAttempts"

section \<open>WebhookHandler (src/handlers/webhookHandler.ts)\<close>

text \<open>
  What one request reads from outside the handler: the result of
  \<^verbatim>\<open>JSON.parse(req.body.toString())\<close> (\<open>None\<close> when it throws; a parsed body has the
  declared type \<^verbatim>\<open>SymplaWebhookPayload\<close>), the identifier that \<^verbatim>\<open>uuidv4()\<close> returns, the
  successive readings of the clock during the dispatch, the reading when the response is
  built, and the client of the gateway (\<open>None\<close> when \<^verbatim>\<open>createDonation\<close> rejects).
  Requests are handled one after the other.
\<close>

record 'n env =
  parsed :: "'n SymplaWebhookPayload option"
  uuid :: string
  now :: "nat \<Rightarrow> int"
  responded_at :: int
  createDonation :: "AgroforestreeApiRequest \<Rightarrow> AgroforestreeApiResponse option"

record request =
  body :: buffer
  signature_header :: "string option"
  origin_header :: "string option"

datatype response =
    Unauthorized "string option" "string option"
  | Success int
  | InternalError

fun status_code :: "response \<Rightarrow> nat" where
  "status_code (Unauthorized received origin) = 401"
| "status_code (Success t) = 200"
| "status_code InternalError = 500"

definition full_name :: "'n SymplaOrderData \<Rightarrow> string" where
  "full_name orderData = buyer_first_name orderData @ '' '' @ buyer_last_name orderData"

text \<open>The request that \<^verbatim>\<open>createDonationWithConsent\<close> builds for the gateway.\<close>

definition donationRequest :: "'n SymplaOrderData \<Rightarrow> AgroforestreeApiRequest" where
  "donationRequest orderData =
     \<lparr>sourcePlatform = ''Sympla'',
      sourceOrderId = order_identifier orderData,
      sourceEventId = event_id orderData,
      donorName = full_name orderData,
      donorEmail = buyer_email orderData,
      donationValue = 5,
      campaignId = ''sympla-geral-2024''\<rparr>"

definition createDonationWithConsent ::
  "'n env \<Rightarrow> 'n SymplaOrderData \<Rightarrow> 'n DonationAttempt \<Rightarrow> 'n store \<Rightarrow> 'n store" where
  "createDonationWithConsent e orderData donationAttempt donationAttempts =
     (case createDonation e (donationRequest orderData) of
        Some donationResponse \<Rightarrow>
          Map_set (order_identifier orderData)
            (donationAttempt\<lparr>status := COMPLETED, updated_at := now e 4\<rparr>) donationAttempts
      | None \<Rightarrow>
          Map_set (order_identifier orderData)
            (donationAttempt\<lparr>status := DECLINED, updated_at := now e 4\<rparr>) donationAttempts)"

definition handleOrderApproved ::
  "string \<Rightarrow> 'n env \<Rightarrow> 'n SymplaOrderData \<Rightarrow> 'n store \<Rightarrow> 'n store" where
  "handleOrderApproved secret e orderData donationAttempts =
     (let donationAttempt =
            \<lparr>attempt_id = uuid e,
             sympla_order_id = order_identifier orderData,
             sympla_event_id = event_id orderData,
             status = PENDING_USER_ACTION,
             donation_token =
               generateDonationToken secret (now e 0) (now e 1)
                 (order_identifier orderData) (event_id orderData),
             created_at = now e 2,
             updated_at = now e 3,
             donor_name = Some (full_name orderData),
             donor_email = Some (buyer_email orderData),
             attempt_event_name = Some (event_name orderData),
             order_amount = Some (total_order_amount orderData)\<rparr>
      in createDonationWithConsent e orderData donationAttempt
           (Map_set (order_identifier orderData) donationAttempt donationAttempts))"

definition handleOrderCancelled :: "'n env \<Rightarrow> 'n SymplaOrderData \<Rightarrow> 'n store \<Rightarrow> 'n store" where
  "handleOrderCancelled e orderData donationAttempts =
     (case Map_get (order_identifier orderData) donationAttempts of
        Some existingAttempt \<Rightarrow>
          Map_set (order_identifier orderData)
            (existingAttempt\<lparr>status := CANCELLED, updated_at := now e 0\<rparr>) donationAttempts
      | None \<Rightarrow>
          Map_set (order_identifier orderData)
            \<lparr>attempt_id = uuid e,
             sympla_order_id = order_identifier orderData,
             sympla_event_id = event_id orderData,
             status = CANCELLED,
             donation_token = [],
             created_at = now e 0,
             updated_at = now e 1,
             donor_name = Some (full_name orderData),
             donor_email = Some (buyer_email orderData),
             attempt_event_name = Some (event_name orderData),
             order_amount = Some (total_order_amount orderData)\<rparr>
            donationAttempts)"

definition handleOrderRefunded :: "'n env \<Rightarrow> 'n SymplaOrderData \<Rightarrow> 'n store \<Rightarrow> 'n store" where
  "handleOrderRefunded e orderData donationAttempts =
     (case Map_get (order_identifier orderData) donationAttempts of
        Some existingAttempt \<Rightarrow>
          Map_set (order_identifier orderData)
            (existingAttempt\<lparr>status := REFUNDED, updated_at := now e 0\<rparr>) donationAttempts
      | None \<Rightarrow>
          Map_set (order_identifier orderData)
            \<lparr>attempt_id = uuid e,
             sympla_order_id = order_identifier orderData,
             sympla_event_id = event_id orderData,
             status = REFUNDED,
             donation_token = ''token_'' @ show_int (now e 0),
             created_at = now e 1,
             updated_at = now e 2,
             donor_name = Some (full_name orderData),
             donor_email = Some (buyer_email orderData),
             attempt_event_name = Some (event_name orderData),
             order_amount = Some (total_order_amount orderData)\<rparr>
            donationAttempts)"

text \<open>
  \<^verbatim>\<open>processWebhook\<close> returns the response it sends and the store it leaves. An
  exception of \<^verbatim>\<open>JSON.parse\<close> is caught by the outer \<^verbatim>\<open>try\<close> and answered with 500.
\<close>

definition processWebhook ::
  "string \<Rightarrow> 'n env \<Rightarrow> request \<Rightarrow> 'n store \<Rightarrow> response \<times> 'n store" where
  "processWebhook secret e req donationAttempts =
     (if \<not> validateSignature secret (body req) (signature_header req)
      then (Unauthorized (signature_header req) (origin_header req), donationAttempts)
      else
        (case parsed e of
           None \<Rightarrow> (InternalError, donationAttempts)
         | Some payload \<Rightarrow>
             (let donationAttempts' =
                    (if event payload = ''order.approved''
                       then handleOrderApproved secret e (data payload) donationAttempts
                     else if event payload = ''order.cancelled''
                       then handleOrderCancelled e (data payload) donationAttempts
                     else if event payload = ''order.refunded''
                       then handleOrderRefunded e (data payload) donationAttempts
                     else if event payload = ''order.created''
                       then donationAttempts
                     else donationAttempts)
              in (Success (responded_at e), donationAttempts'))))"

text \<open>A sequence of requests, each with what it reads from outside, handled in order.\<close>

fun processAll :: "string \<Rightarrow> ('n env \<times> request) list \<Rightarrow> 'n store \<Rightarrow> 'n store" where
  "processAll secret [] donationAttempts = donationAttempts"
| "processAll secret ((e, req) # rest) donationAttempts =
     processAll secret rest (snd (processWebhook secret e req donationAttempts))"

section \<open>The invariant of the store and the fixtures of the tests\<close>

text \<open>
  The invariant of the store: the keys are pairwise different and every attempt is stored
  under its own order identifier.
\<close>

definition store_ok :: "'n store \<Rightarrow> bool" where
  "store_ok s = (distinct (map fst s) \<and> list_all (\<lambda>(k, a). sympla_order_id a = k) s)"

text \<open>
  The fixtures of the handler's tests: the
  secret, the order, a request whose signature header is the \<^verbatim>\<open>sha256=\<close> digest of its
  body, and what the request reads from outside, with a gateway that succeeds or fails.
\<close>

definition test_secret :: string where
  "test_secret = ''test-webhook-secret''"

definition test_order :: "int SymplaOrderData" where
  "test_order =
     \<lparr>order_identifier = ''order-123'', event_id = ''event-456'', event_name = ''Test Event'',
      total_order_amount = 100, buyer_first_name = ''Joao'', buyer_last_name = ''Silva'',
      buyer_email = ''joao@example.com'', order_status = ''approved''\<rparr>"

definition test_body :: "string \<Rightarrow> buffer" where
  "test_body kind =
     utf8_encode
       (''{'' @ json_quote ''event'' @ '':'' @ json_quote kind @ '','' @ json_quote ''data'' @ '':{''
        @ json_quote ''order_identifier'' @ '':'' @ json_quote ''order-123'' @ '',''
        @ json_quote ''event_id'' @ '':'' @ json_quote ''event-456'' @ '',''
        @ json_quote ''event_name'' @ '':'' @ json_quote ''Test Event'' @ '',''
        @ json_quote ''total_order_amount'' @ '':100,''
        @ json_quote ''buyer_first_name'' @ '':'' @ json_quote ''Joao'' @ '',''
        @ json_quote ''buyer_last_name'' @ '':'' @ json_quote ''Silva'' @ '',''
        @ json_quote ''buyer_email'' @ '':'' @ json_quote ''joao@example.com'' @ '',''
        @ json_quote ''order_status'' @ '':'' @ json_quote ''approved'' @ ''}}'')"

definition signed_request :: "string \<Rightarrow> buffer \<Rightarrow> request" where
  "signed_request secret payload =
     \<lparr>body = payload,
      signature_header = Some (''sha256='' @ hex_encode (hmac_sha256 (utf8_encode secret) payload)),
      origin_header = None\<rparr>"

definition test_env :: "string \<Rightarrow> bool \<Rightarrow> int env" where
  "test_env kind gateway_ok =
     \<lparr>parsed = Some \<lparr>event = kind, data = test_order\<rparr>,
      uuid = ''mocked-uuid-123'',
      now = (\<lambda>k. 1000 + int k),
      responded_at = 2000,
      createDonation =
        (\<lambda>r. if gateway_ok
             then Some \<lparr>donationId = ''donation-123'', response_status = ''PENDING_PLANTING'',
                        createdAt = ''2024-01-01T00:00:00Z'', certificateUrl = None\<rparr>
             else None)\<rparr>"

definition test_attempt :: "int DonationAttempt" where
  "test_attempt =
     \<lparr>attempt_id = ''mocked-uuid-123'', sympla_order_id = ''order-123'',
      sympla_event_id = ''event-456'', status = COMPLETED,
      donation_token = generateDonationToken test_secret 1000 1001 ''order-123'' ''event-456'',
      created_at = 1002, updated_at = 1004, donor_name = Some ''Joao Silva'',
      donor_email = Some ''joao@example.com'', attempt_event_name = Some ''Test Event'',
      order_amount = Some 100\<rparr>"

section \<open>Lemmas on the digest\<close>

lemma length_bytes_of_word: "length (bytes_of_word w) = 4"
  by (simp add: bytes_of_word_def)

lemma length_digest_bytes: "length (digest_bytes st) = 32"
  by (induct st rule: digest_bytes.induct) (simp add: length_bytes_of_word)

lemma length_sha256: "length (sha256 m) = 32"
  by (simp add: sha256_def length_digest_bytes)

lemma length_hmac_sha256: "length (hmac_sha256 key msg) = 32"
  by (simp add: hmac_sha256_def Let_def length_sha256)

text \<open>
  HMAC pads a key shorter than the block with zero bytes: a key and the same key followed
  by a zero byte give the same digest.
\<close>

lemma hmac_key_nul:
  assumes "length key < 64"
  shows "hmac_sha256 (key @ [char_of (0::nat)]) msg = hmac_sha256 key msg"
proof -
  define z where "z = char_of (0::nat)"
  have short: "\<not> 64 < length (key @ [z])" "\<not> 64 < length key" using assms by simp_all
  have "64 - length key = Suc (64 - length (key @ [z]))" using assms by simp
  then have "replicate (64 - length key) z = z # replicate (64 - length (key @ [z])) z"
    by (simp only: replicate_Suc)
  then have padded: "(key @ [z]) @ replicate (64 - length (key @ [z])) z =
      key @ replicate (64 - length key) z"
    by (simp only: append_assoc append_Cons append_Nil)
  show ?thesis
    unfolding hmac_sha256_def Let_def z_def [symmetric]
    by (simp only: short if_False padded)
qed

section \<open>Lemmas on the signature check\<close>

lemma unhex_hex_digit: "n < 16 \<Longrightarrow> unhex (hex_digit n) = Some n"
  by (auto simp: unhex_def hex_digit_def Let_def)

lemma hex_decode_hex_byte: "hex_decode (hex_byte b @ rest) = b # hex_decode rest"
proof -
  have lt: "(of_char b :: nat) < 256" by simp
  then have hi: "(of_char b :: nat) div 16 < 16" by arith
  have lo: "(of_char b :: nat) mod 16 < 16" by simp
  have "char_of (16 * ((of_char b :: nat) div 16) + (of_char b :: nat) mod 16) = b"
    by simp
  then show ?thesis
    by (simp add: hex_byte_def unhex_hex_digit [OF hi] unhex_hex_digit [OF lo])
qed

lemma hex_decode_encode_append: "hex_decode (hex_encode bs @ rest) = bs @ hex_decode rest"
  by (induction bs) (simp_all add: hex_encode_def hex_decode_hex_byte)

lemma hex_decode_encode: "hex_decode (hex_encode bs) = bs"
  using hex_decode_encode_append [of bs "[]"] by simp

lemma hex_decode_nonhex: "unhex c = None \<Longrightarrow> hex_decode (c # rest) = []"
  by (cases rest) simp_all

lemma unhex_space: "is_space c \<Longrightarrow> unhex c = None"
  by (auto simp: is_space_def unhex_def Let_def)

lemma hex_digit_not_space: "n < 16 \<Longrightarrow> \<not> is_space (hex_digit n)"
  using unhex_space [of "hex_digit n"] by (auto simp: unhex_hex_digit)

lemma hex_digit_lower: "n < 16 \<Longrightarrow> lower_ascii (hex_digit n) \<noteq> CHR ''s''"
  by (auto simp: hex_digit_def lower_ascii_def Let_def char_of_eq_iff take_bit_eq_mod)

lemma trim_core:
  assumes "list_all is_space ws1" "list_all is_space ws2"
    and "x \<noteq> []" "\<not> is_space (hd x)" "\<not> is_space (last x)"
  shows "trim (ws1 @ x @ ws2) = x"
proof -
  have a: "dropWhile is_space (ws1 @ x @ ws2) = x @ ws2"
    using assms by (cases x) (auto simp: dropWhile_append list_all_iff)
  have b: "dropWhile is_space (rev ws2 @ rev x) = rev x"
    using assms by (cases x rule: rev_cases) (auto simp: dropWhile_append list_all_iff)
  show ?thesis by (simp add: trim_def a b)
qed



lemma hex_byte_chars: "c \<in> set (hex_byte b) \<Longrightarrow> \<exists>n<16. c = hex_digit n"
proof -
  have lt: "(of_char b :: nat) < 256" by simp
  then have hi: "(of_char b :: nat) div 16 < 16" by arith
  have lo: "(of_char b :: nat) mod 16 < 16" by simp
  assume "c \<in> set (hex_byte b)"
  then have "c = hex_digit ((of_char b :: nat) div 16) \<or> c = hex_digit ((of_char b :: nat) mod 16)"
    by (simp add: hex_byte_def)
  then show ?thesis using hi lo by blast
qed

lemma hex_encode_chars: "c \<in> set (hex_encode bs) \<Longrightarrow> \<exists>n<16. c = hex_digit n"
  by (auto simp: hex_encode_def dest: hex_byte_chars)

lemma hex_encode_not_space: "c \<in> set (hex_encode bs) \<Longrightarrow> \<not> is_space c"
  using hex_encode_chars [of c bs] hex_digit_not_space by auto

lemma hex_encode_not_s: "c \<in> set (hex_encode bs) \<Longrightarrow> lower_ascii c \<noteq> CHR ''s''"
  using hex_encode_chars [of c bs] hex_digit_lower by auto

lemma length_hex_encode: "length (hex_encode bs) = 2 * length bs"
  by (induction bs) (simp_all add: hex_encode_def hex_byte_def)

lemma space_lower: "is_space c \<Longrightarrow> lower_ascii c \<noteq> CHR ''s''"
  by (auto simp: is_space_def lower_ascii_def Let_def)

lemma strip_no_prefix:
  "s \<noteq> [] \<Longrightarrow> lower_ascii (hd s) \<noteq> CHR ''s'' \<Longrightarrow> strip_sha256_prefix s = s"
  by (cases s) (auto simp: strip_sha256_prefix_def)

lemma strip_prefix:
  "map lower_ascii pfx = ''sha256='' \<Longrightarrow> strip_sha256_prefix (pfx @ s) = s"
proof -
  assume a: "map lower_ascii pfx = ''sha256=''"
  then have "length (map lower_ascii pfx) = 7" by simp
  then have "length pfx = 7" by simp
  then show ?thesis using a by (simp add: strip_sha256_prefix_def)
qed

lemma validate_core:
  "length (hex_decode r) = 32 \<Longrightarrow> r \<noteq> [] \<Longrightarrow> trim (strip_sha256_prefix sig) = r \<Longrightarrow> sig \<noteq> [] \<Longrightarrow>
   validateSignature S P (Some sig) = (hex_decode r = hmac_sha256 (utf8_encode S) P)"
  by (simp add: validateSignature_def Let_def hex_decode_encode length_hmac_sha256 timingSafeEqual_def)

lemma validate_short:
  "sig \<noteq> [] \<Longrightarrow> hex_decode (trim (strip_sha256_prefix sig)) = [] \<Longrightarrow>
   \<not> validateSignature S P (Some sig)"
  by (simp add: validateSignature_def Let_def hex_decode_encode length_hmac_sha256)

lemma trim_tail:
  assumes "x \<noteq> []" "\<not> is_space (hd x)" "\<not> is_space (last x)"
  shows "trim (x @ c # rest) = x \<or> (\<exists>t. trim (x @ c # rest) = x @ c # t)"
proof -
  have front: "dropWhile is_space (x @ c # rest) = x @ c # rest"
    using assms by (cases x) auto
  show ?thesis
  proof (cases "is_space c \<and> list_all is_space rest")
    case True
    then have "\<forall>y\<in>set (rev rest @ [c]). is_space y" by (auto simp: list_all_iff)
    then have "dropWhile is_space ((rev rest @ [c]) @ rev x) = dropWhile is_space (rev x)"
      by (intro dropWhile_append2) blast
    moreover have "dropWhile is_space (rev x) = rev x"
      using assms by (cases x rule: rev_cases) auto
    ultimately have "dropWhile is_space (rev rest @ c # rev x) = rev x" by simp
    then show ?thesis by (simp add: trim_def front)
  next
    case False
    then obtain y where y: "y \<in> set (rev rest @ [c])" "\<not> is_space y"
      by (auto simp: list_all_iff)
    have "dropWhile is_space (rev rest @ [c]) \<noteq> []"
      using y by (metis dropWhile_eq_Nil_conv)
    moreover have "dropWhile is_space (rev rest @ [c]) = [] \<or>
        (\<exists>u. dropWhile is_space (rev rest @ [c]) = u @ [c])"
      by (simp add: dropWhile_append)
    ultimately obtain u where u: "dropWhile is_space (rev rest @ [c]) = u @ [c]" by blast
    have "dropWhile is_space ((rev rest @ [c]) @ rev x) = (u @ [c]) @ rev x"
      using dropWhile_append1 [of y "rev rest @ [c]" is_space "rev x"] y u by simp
    then have "trim (x @ c # rest) = x @ c # rev u"
      by (simp add: trim_def front)
    then show ?thesis by blast
  qed
qed

lemma header_normal_form:
  assumes ws1: "list_all is_space ws1" and ws2: "list_all is_space ws2"
    and pfx: "pfx = [] \<or> map lower_ascii pfx = ''sha256=''"
    and ne: "hx \<noteq> []"
    and digits: "\<And>c. c \<in> set hx \<Longrightarrow> \<not> is_space c \<and> lower_ascii c \<noteq> CHR ''s''"
  shows "trim (strip_sha256_prefix (pfx @ ws1 @ hx @ ws2)) = hx"
proof -
  have hd_in: "hd hx \<in> set hx" and last_in: "last hx \<in> set hx" using ne by simp_all
  let ?body = "ws1 @ hx @ ws2"
  have body_ne: "?body \<noteq> []" using ne by simp
  have hd_body: "lower_ascii (hd ?body) \<noteq> CHR ''s''"
  proof (cases ws1)
    case Nil
    then show ?thesis using ne digits [OF hd_in] by simp
  next
    case (Cons w ws)
    then show ?thesis using ws1 by (simp add: space_lower)
  qed
  have strip: "strip_sha256_prefix (pfx @ ?body) = ?body"
  proof (cases "pfx = []")
    case True
    then show ?thesis using strip_no_prefix [OF body_ne hd_body] by simp
  next
    case False
    then have "map lower_ascii pfx = ''sha256=''" using pfx by simp
    then show ?thesis by (rule strip_prefix)
  qed
  have "trim ?body = hx"
    using trim_core [OF ws1 ws2 ne] digits [OF hd_in] digits [OF last_in] by simp
  then show ?thesis by (simp only: strip)
qed

lemma hex_digest_text:
  "hex_encode (hmac_sha256 key msg) \<noteq> []"
  "c \<in> set (hex_encode (hmac_sha256 key msg)) \<Longrightarrow> \<not> is_space c \<and> lower_ascii c \<noteq> CHR ''s''"
  using length_hex_encode [of "hmac_sha256 key msg"]
  by (auto simp: length_hmac_sha256 hex_encode_not_space hex_encode_not_s)

lemma validateSignature_signed:
  "validateSignature S P (Some (''sha256='' @ hex_encode (hmac_sha256 (utf8_encode S) P)))"
proof -
  let ?hx = "hex_encode (hmac_sha256 (utf8_encode S) P)"
  have pfx: "map lower_ascii ''sha256='' = ''sha256=''" by (simp add: lower_ascii_def)
  have "trim (strip_sha256_prefix (''sha256='' @ [] @ ?hx @ [])) = ?hx"
  proof (rule header_normal_form)
    show "''sha256='' = [] \<or> map lower_ascii ''sha256='' = ''sha256=''"
      by (rule disjI2) (rule pfx)
  qed (simp_all add: hex_digest_text)
  then have "validateSignature S P (Some (''sha256='' @ ?hx)) =
      (hex_decode ?hx = hmac_sha256 (utf8_encode S) P)"
    by (intro validate_core) (simp_all add: hex_decode_encode length_hmac_sha256 hex_digest_text)
  then show ?thesis by (simp add: hex_decode_encode)
qed

lemma hex_text:
  assumes "d \<noteq> []"
  shows "hex_encode d \<noteq> []"
    and "c \<in> set (hex_encode d) \<Longrightarrow> \<not> is_space c \<and> lower_ascii c \<noteq> CHR ''s''"
  using assms length_hex_encode [of d]
  by (auto simp: hex_encode_not_space hex_encode_not_s)

lemma validateSignature_header:
  assumes "list_all is_space ws1" and "list_all is_space ws2"
    and "pfx = [] \<or> map lower_ascii pfx = ''sha256=''"
    and len: "length d = 32"
  shows "validateSignature S P (Some (pfx @ ws1 @ hex_encode d @ ws2))
         = (d = hmac_sha256 (utf8_encode S) P)"
proof -
  define hx where "hx = hex_encode d"
  have d: "d \<noteq> []" using len by auto
  have ne: "hx \<noteq> []" unfolding hx_def using d by (rule hex_text)
  have "trim (strip_sha256_prefix (pfx @ ws1 @ hx @ ws2)) = hx"
    using assms(1-3) ne by (rule header_normal_form) (simp add: hx_def hex_text [OF d])
  moreover have "length (hex_decode hx) = 32"
    by (simp add: hx_def hex_decode_encode len)
  ultimately have "validateSignature S P (Some (pfx @ ws1 @ hx @ ws2)) =
      (hex_decode hx = hmac_sha256 (utf8_encode S) P)"
    using ne by (intro validate_core) simp_all
  then show ?thesis by (simp add: hx_def hex_decode_encode)
qed

lemma validateSignature_other_secret:
  "validateSignature S P (Some (''sha256='' @ hex_encode (hmac_sha256 (utf8_encode K) P)))
   = (hmac_sha256 (utf8_encode K) P = hmac_sha256 (utf8_encode S) P)"
proof -
  have pfx: "map lower_ascii ''sha256='' = ''sha256=''" by (simp add: lower_ascii_def)
  have "validateSignature S P
      (Some (''sha256='' @ [] @ hex_encode (hmac_sha256 (utf8_encode K) P) @ []))
      = (hmac_sha256 (utf8_encode K) P = hmac_sha256 (utf8_encode S) P)"
  proof (rule validateSignature_header)
    show "''sha256='' = [] \<or> map lower_ascii ''sha256='' = ''sha256=''"
      by (rule disjI2) (rule pfx)
  qed (simp_all add: length_hmac_sha256)
  then show ?thesis by simp
qed

section \<open>Lemmas on the token codec\<close>

lemma utf8_decode_char:
  "utf8_decode (utf8_char c @ bs) = map_option ((#) c) (utf8_decode bs)"
proof (cases "(of_char c :: nat) < 128")
  case True
  then show ?thesis by (cases bs) (simp_all add: utf8_char_def)
next
  case False
  define n where "n = (of_char c :: nat)"
  have c: "c = char_of n" by (simp add: n_def)
  have lt: "n < 256" by (simp add: n_def)
  have ge: "128 \<le> n" using False by (simp add: n_def)
  have m: "n mod 64 = n - 64 * (n div 64)" by (rule minus_mult_div_eq_mod [symmetric])
  show ?thesis
  proof (cases "n < 192")
    case True
    have d: "n div 64 = 2" using True ge by arith
    have enc: "utf8_char c = [char_of (194::nat), char_of n]"
      using ge by (simp add: utf8_char_def Let_def n_def [symmetric] m d)
    have v: "(194 - 192) * 64 + (n - 128) = n" using ge by simp
    show ?thesis unfolding enc using True ge lt by (simp add: c v Let_def)
  next
    case False
    have d: "n div 64 = 3" using False lt by arith
    have enc: "utf8_char c = [char_of (195::nat), char_of (n - 64)]"
      using ge False by (simp add: utf8_char_def Let_def n_def [symmetric] m d)
    have y: "(n - 64) mod 256 = n - 64" "128 \<le> n - 64" "n - 64 < 192"
      using lt False by simp_all
    have v: "192 + (n - 192) = n" using False by simp
    show ?thesis unfolding enc by (simp add: c y v Let_def)
  qed
qed

lemma utf8_decode_encode: "utf8_decode (utf8_encode s) = Some s"
  by (induction s) (simp_all add: utf8_encode_def utf8_decode_char)

lemma div_mod_parts:
  fixes p q :: nat
  shows "q < 16 \<Longrightarrow> (p * 16 + q) div 16 = p" "q < 16 \<Longrightarrow> (p * 16 + q) mod 16 = q"
    "q < 4 \<Longrightarrow> (p * 4 + q) div 4 = p" "q < 4 \<Longrightarrow> (p * 4 + q) mod 4 = q"
  by simp_all

lemma byte_parts:
  fixes x :: nat
  assumes "x < 256"
  shows "x div 4 < 64" "x div 16 < 16" "x div 64 < 4"
  using assms by arith+

lemma b64_index_char: "n < 64 \<Longrightarrow> b64_index (b64_char n) = Some n"
  by (auto simp: b64_index_def b64_char_def Let_def)

lemma b64_char_not_dot: "b64_char n \<noteq> CHR ''.''"
  by (auto simp: b64_char_def char_of_eq_iff take_bit_eq_mod)

lemma b64_group3:
  fixes x y z :: nat
  assumes "x < 256" "y < 256" "z < 256"
  shows "x div 4 < 64" "x mod 4 * 16 + y div 16 < 64" "y mod 16 * 4 + z div 64 < 64" "z mod 64 < 64"
    "x div 4 * 4 + (x mod 4 * 16 + y div 16) div 16 = x"
    "(x mod 4 * 16 + y div 16) mod 16 * 16 + (y mod 16 * 4 + z div 64) div 4 = y"
    "(y mod 16 * 4 + z div 64) mod 4 * 64 + z mod 64 = z"
proof -
  have y16: "y div 16 < 16" and z64: "z div 64 < 4" using assms byte_parts by blast+
  have x4: "x mod 4 < 4" and y4: "y mod 16 < 16" by simp_all
  show "x div 4 < 64" using assms byte_parts by blast
  show "x mod 4 * 16 + y div 16 < 64" using x4 y16 by linarith
  show "y mod 16 * 4 + z div 64 < 64" using y4 z64 by linarith
  show "z mod 64 < 64" by simp
  show "x div 4 * 4 + (x mod 4 * 16 + y div 16) div 16 = x"
    by (simp add: div_mod_parts y16)
  show "(x mod 4 * 16 + y div 16) mod 16 * 16 + (y mod 16 * 4 + z div 64) div 4 = y"
    by (simp add: div_mod_parts y16 z64)
  show "(y mod 16 * 4 + z div 64) mod 4 * 64 + z mod 64 = z"
    by (simp add: div_mod_parts z64)
qed

lemma base64url_decode_group:
  assumes "i < 64" "j < 64" "k < 64" "l < 64"
  shows "base64url_decode (b64_char i # b64_char j # b64_char k # b64_char l # rest) =
         map_option (\<lambda>t. char_of (i * 4 + j div 16) # char_of (j mod 16 * 16 + k div 4)
                          # char_of (k mod 4 * 64 + l) # t) (base64url_decode rest)"
  using assms by (simp add: b64_index_char)

lemma base64url_decode_encode: "base64url_decode (base64url_encode bs) = Some bs"
proof (induction bs rule: base64url_encode.induct)
  case (1 a b c rest)
  define i where "i = (of_char a :: nat) div 4"
  define j where "j = (of_char a :: nat) mod 4 * 16 + (of_char b :: nat) div 16"
  define k where "k = (of_char b :: nat) mod 16 * 4 + (of_char c :: nat) div 64"
  define l where "l = (of_char c :: nat) mod 64"
  have lt: "(of_char a :: nat) < 256" "(of_char b :: nat) < 256" "(of_char c :: nat) < 256"
    by simp_all
  note g = b64_group3 [OF lt, folded i_def j_def k_def l_def]
  have enc: "base64url_encode (a # b # c # rest) =
      b64_char i # b64_char j # b64_char k # b64_char l # base64url_encode rest"
    by (simp add: Let_def i_def j_def k_def l_def)
  show ?case
    unfolding enc base64url_decode_group [OF g(1-4)] g(5-7) "1.IH" by simp
next
  case (2 a b)
  define i where "i = (of_char a :: nat) div 4"
  define j where "j = (of_char a :: nat) mod 4 * 16 + (of_char b :: nat) div 16"
  define k where "k = (of_char b :: nat) mod 16 * 4 + (0 :: nat) div 64"
  have lt: "(of_char a :: nat) < 256" "(of_char b :: nat) < 256" "(0::nat) < 256"
    by simp_all
  note g = b64_group3 [OF lt, folded i_def j_def k_def]
  have enc: "base64url_encode [a, b] = [b64_char i, b64_char j, b64_char k]"
    by (simp add: Let_def i_def j_def k_def)
  have "base64url_decode [b64_char i, b64_char j, b64_char k] =
      Some [char_of (i * 4 + j div 16), char_of (j mod 16 * 16 + k div 4)]"
    using g(1-3) by (simp add: b64_index_char)
  then show ?case unfolding enc g(5-6) by simp
next
  case (3 a)
  define i where "i = (of_char a :: nat) div 4"
  define j where "j = (of_char a :: nat) mod 4 * 16 + (0 :: nat) div 16"
  have lt: "(of_char a :: nat) < 256" "(0::nat) < 256" "(0::nat) < 256"
    by simp_all
  note g = b64_group3 [OF lt, folded i_def j_def]
  have enc: "base64url_encode [a] = [b64_char i, b64_char j]"
    by (simp add: Let_def i_def j_def)
  have "base64url_decode [b64_char i, b64_char j] = Some [char_of (i * 4 + j div 16)]"
    using g(1-2) by (simp add: b64_index_char)
  then show ?case unfolding enc g(5) by simp
next
  case 4
  show ?case by simp
qed

lemma base64url_encode_no_dot: "CHR ''.'' \<notin> set (base64url_encode bs)"
  by (induction bs rule: base64url_encode.induct)
     (auto simp: Let_def b64_char_not_dot b64_char_not_dot [symmetric])

lemma parse_escape_named:
  assumes "k = 8 \<or> k = 12 \<or> k = 10 \<or> k = 13 \<or> k = 9"
  shows "parse_string_body (json_escape_char (char_of (k::nat)) @ tail) =
         map_option (\<lambda>(s, r). (char_of k # s, r)) (parse_string_body tail)"
  using assms
  by (elim disjE)
     (simp_all add: json_escape_char_def unescape_def dquote_def backslash_def Let_def
        char_of_eq_iff)

lemma parse_escape_char:
  "parse_string_body (json_escape_char c @ tail) =
   map_option (\<lambda>(s, r). (c # s, r)) (parse_string_body tail)"
proof -
  let ?n = "of_char c :: nat"
  consider (dq) "c = dquote" | (bs) "c = backslash"
    | (named) "c \<noteq> dquote" "c \<noteq> backslash" "?n = 8 \<or> ?n = 12 \<or> ?n = 10 \<or> ?n = 13 \<or> ?n = 9"
    | (ctl) "c \<noteq> dquote" "c \<noteq> backslash" "?n \<noteq> 8" "?n \<noteq> 12" "?n \<noteq> 10" "?n \<noteq> 13" "?n \<noteq> 9" "?n < 32"
    | (plain) "c \<noteq> dquote" "c \<noteq> backslash" "\<not> ?n < 32"
    by fastforce
  then show ?thesis
  proof cases
    case dq
    then show ?thesis
      by (simp add: json_escape_char_def unescape_def dquote_def backslash_def)
  next
    case bs
    then show ?thesis
      by (simp add: json_escape_char_def unescape_def dquote_def backslash_def)
  next
    case named
    have c: "char_of ?n = c" by simp
    show ?thesis using parse_escape_named [OF named(3), of tail] unfolding c .
  next
    case ctl
    have lt: "?n < 256" by simp
    then have hi: "?n div 16 < 16" by arith
    have lo: "?n mod 16 < 16" by simp
    have u0: "unhex CHR ''0'' = Some 0" by (simp add: unhex_def)
    have v: "hex4 CHR ''0'' CHR ''0'' (hex_digit (?n div 16)) (hex_digit (?n mod 16)) = Some ?n"
      by (simp add: hex4_def u0 unhex_hex_digit [OF hi] unhex_hex_digit [OF lo])
    have esc: "json_escape_char c =
        [backslash, CHR ''u'', CHR ''0'', CHR ''0'', hex_digit (?n div 16), hex_digit (?n mod 16)]"
      using ctl by (simp add: json_escape_char_def Let_def hex_byte_def)
    show ?thesis
      unfolding esc by (simp add: v dquote_def backslash_def)
  next
    case plain
    then show ?thesis
      by (simp add: json_escape_char_def Let_def)
  qed
qed

lemma parse_string_body_escaped:
  "parse_string_body (concat (map json_escape_char s) @ dquote # rest) = Some (s, rest)"
  by (induction s) (simp_all add: parse_escape_char)


lemma show_nat_digits: "c \<in> set (show_nat n) \<Longrightarrow> is_digit c"
proof (induction n arbitrary: c rule: show_nat.induct)
  case (1 n)
  show ?case
  proof (cases "n < 10")
    case True
    then show ?thesis using "1.prems" by (subst (asm) show_nat.simps) (simp add: is_digit_def)
  next
    case False
    have "n mod 10 < 10" by simp
    then have d: "is_digit (char_of (48 + n mod 10))" by (simp add: is_digit_def)
    from "1.prems" False have "c \<in> set (show_nat (n div 10)) \<or> c = char_of (48 + n mod 10)"
      by (subst (asm) show_nat.simps) auto
    then show ?thesis using "1.IH" [OF False] d by blast
  qed
qed

lemma show_nat_not_Nil: "show_nat n \<noteq> []"
  by (subst show_nat.simps) simp

lemma digits_value_snoc:
  "digits_value (ds @ [d]) = 10 * digits_value ds + ((of_char d :: nat) - 48)"
  by (simp add: digits_value_def)

lemma digits_value_show_nat: "digits_value (show_nat n) = n"
proof (induction n rule: show_nat.induct)
  case (1 n)
  show ?case
  proof (cases "n < 10")
    case True
    then show ?thesis by (subst show_nat.simps) (simp add: digits_value_def)
  next
    case False
    have "n mod 10 < 10" by simp
    then have "(48 + n mod 10) mod 256 = 48 + n mod 10" by simp
    then show ?thesis
      using False "1.IH" [OF False]
      by (subst show_nat.simps) (simp add: digits_value_snoc)
  qed
qed

lemma show_nat_leading_zero: "hd (show_nat n) = CHR ''0'' \<Longrightarrow> n < 10"
proof (induction n rule: show_nat.induct)
  case (1 n)
  show ?case
  proof (rule ccontr)
    assume ge: "\<not> n < 10"
    then have "hd (show_nat n) = hd (show_nat (n div 10))"
      by (subst show_nat.simps) (simp add: show_nat_not_Nil)
    then have "n div 10 < 10" using "1.IH" [OF ge] "1.prems" by simp
    then have "show_nat (n div 10) = [char_of (48 + n div 10)]"
      by (subst show_nat.simps) simp
    then have "char_of (48 + n div 10) = CHR ''0''"
      using \<open>hd (show_nat n) = hd (show_nat (n div 10))\<close> "1.prems" by simp
    then have "n div 10 = 0" using \<open>n div 10 < 10\<close> by (simp add: char_of_eq_iff take_bit_eq_mod)
    then show False using ge by simp
  qed
qed

lemma length_show_nat_small: "n < 10 \<Longrightarrow> length (show_nat n) = 1"
  by (subst show_nat.simps) simp

lemma parse_nat_show_nat:
  assumes "rest \<noteq> []" "\<not> is_digit (hd rest)"
  shows "parse_nat (show_nat n @ rest) = Some (n, rest)"
proof -
  have tw: "takeWhile is_digit (show_nat n @ rest) = show_nat n"
    using assms by (cases rest) (simp_all add: takeWhile_append2 show_nat_digits)
  have dw: "dropWhile is_digit (show_nat n @ rest) = rest"
    using assms by (cases rest) (simp_all add: dropWhile_append2 show_nat_digits)
  have lz: "\<not> (hd (show_nat n) = CHR ''0'' \<and> 1 < length (show_nat n))"
    using show_nat_leading_zero [of n] length_show_nat_small [of n] by auto
  show ?thesis
    unfolding parse_nat_def tw dw Let_def using lz
    by (simp add: show_nat_not_Nil digits_value_show_nat)
qed

lemma hd_show_nat_not_minus: "hd (show_nat n) \<noteq> CHR ''-''"
proof -
  have "hd (show_nat n) \<in> set (show_nat n)" by (simp add: show_nat_not_Nil)
  then have "is_digit (hd (show_nat n))" by (rule show_nat_digits)
  then show ?thesis by (auto simp: is_digit_def)
qed

lemma parse_int_show_int:
  assumes "rest \<noteq> []" "\<not> is_digit (hd rest)"
  shows "parse_int (show_int i @ rest) = Some (i, rest)"
proof (cases "i < 0")
  case True
  then have "nat (- i) \<noteq> 0" by simp
  then show ?thesis
    using True by (simp add: parse_int_def show_int_def parse_nat_show_nat [OF assms])
next
  case False
  then show ?thesis
    using hd_show_nat_not_minus [of "nat i"]
    by (simp add: parse_int_def show_int_def parse_nat_show_nat [OF assms] show_nat_not_Nil)
qed

lemma expect_append: "expect lit (lit @ s) = Some s"
  by (simp add: expect_def)

lemma JSON_parse_stringify: "JSON_parse (JSON_stringify t) = Some t"
proof -
  define L1 where "L1 = ''{'' @ json_quote ''orderId'' @ '':'' @ [dquote]"
  define L2 where "L2 = '','' @ json_quote ''eventId'' @ '':'' @ [dquote]"
  define L3 where "L3 = '','' @ json_quote ''timestamp'' @ '':''"
  define L4 where "L4 = '','' @ json_quote ''exp'' @ '':''"
  define E where "E s = concat (map json_escape_char s)" for s
  have shape: "JSON_stringify t =
      L1 @ (E (orderId t) @ dquote # (L2 @ (E (eventId t) @ dquote #
        (L3 @ (show_int (timestamp t) @ (L4 @ (show_int (exp t) @ ''}'')))))))"
    by (simp add: JSON_stringify_def L1_def L2_def L3_def L4_def E_def json_quote_def)
  have sep4: "L4 @ (show_int (exp t) @ ''}'') \<noteq> []" "\<not> is_digit (hd (L4 @ (show_int (exp t) @ ''}'')))"
    by (simp_all add: L4_def is_digit_def)
  have sep5: "''}'' \<noteq> []" "\<not> is_digit (hd ''}'')"
    by (simp_all add: is_digit_def)
  have pe: "\<And>s rest. parse_string_body (E s @ dquote # rest) = Some (s, rest)"
    by (simp add: E_def parse_string_body_escaped)
  show ?thesis
    unfolding JSON_parse_def shape
    unfolding L1_def [symmetric] L2_def [symmetric] L3_def [symmetric] L4_def [symmetric]
    by (simp only: expect_append Option.bind.simps pe
          parse_int_show_int [OF sep4] parse_int_show_int [OF sep5] prod.case if_True)
       simp
qed

lemma split_on_no_sep: "sep \<notin> set s \<Longrightarrow> split_on sep s = [s]"
  by (induction s) auto

lemma split_on_append:
  "sep \<notin> set a \<Longrightarrow> split_on sep (a @ sep # rest) = a # split_on sep rest"
  by (induction a) auto

lemma split_on_two:
  "sep \<notin> set a \<Longrightarrow> sep \<notin> set b \<Longrightarrow> split_on sep (a @ sep # b) = [a, b]"
  by (simp add: split_on_append split_on_no_sep)

lemma split_on_more:
  "sep \<notin> set a \<Longrightarrow> sep \<notin> set b \<Longrightarrow>
   split_on sep (a @ sep # b @ sep # tail) = a # b # split_on sep tail"
  by (simp add: split_on_append)

lemma timingSafeEqual_refl: "timingSafeEqual b b = Some True"
  by (simp add: timingSafeEqual_def)

lemma decodePayload_encode:
  "decodePayload (base64url_encode (utf8_encode (JSON_stringify p))) = Some p"
  by (simp add: decodePayload_def base64url_decode_encode utf8_decode_encode JSON_parse_stringify)

lemma validateToken_segments:
  assumes "split_on CHR ''.'' token =
      base64url_encode (utf8_encode (JSON_stringify p)) # signPayload secret
        (base64url_encode (utf8_encode (JSON_stringify p))) # segs"
  shows "validateToken secret t token = (if t > exp p then Null else Payload p)"
  by (simp add: validateToken_def assms Let_def timingSafeEqual_refl decodePayload_encode)

lemma generateDonationToken_shape:
  "generateDonationToken secret now1 now2 oid eid =
     base64url_encode (utf8_encode (JSON_stringify
       \<lparr>orderId = oid, eventId = eid, timestamp = now1, exp = now2 + 86400000\<rparr>))
     @ CHR ''.'' #
     signPayload secret (base64url_encode (utf8_encode (JSON_stringify
       \<lparr>orderId = oid, eventId = eid, timestamp = now1, exp = now2 + 86400000\<rparr>)))"
  by (simp add: generateDonationToken_def Let_def)

lemma signPayload_no_dot: "CHR ''.'' \<notin> set (signPayload secret payload)"
  by (simp add: signPayload_def base64url_encode_no_dot)

lemma validateToken_genuine_prefix:
  "validateToken secret t (generateDonationToken secret now1 now2 oid eid @ ''.'' @ tail) =
     (if t > now2 + 86400000 then Null
      else Payload \<lparr>orderId = oid, eventId = eid, timestamp = now1, exp = now2 + 86400000\<rparr>)"
proof -
  define p where "p = \<lparr>orderId = oid, eventId = eid, timestamp = now1, exp = now2 + 86400000\<rparr>"
  define enc where "enc = base64url_encode (utf8_encode (JSON_stringify p))"
  have tok: "generateDonationToken secret now1 now2 oid eid = enc @ CHR ''.'' # signPayload secret enc"
    unfolding enc_def p_def by (rule generateDonationToken_shape)
  have "split_on CHR ''.'' (enc @ CHR ''.'' # signPayload secret enc @ CHR ''.'' # tail) =
      enc # signPayload secret enc # split_on CHR ''.'' tail"
    by (rule split_on_more) (simp_all add: enc_def signPayload_no_dot base64url_encode_no_dot)
  then have "validateToken secret t (enc @ CHR ''.'' # signPayload secret enc @ CHR ''.'' # tail) =
      (if t > exp p then Null else Payload p)"
    unfolding enc_def by (rule validateToken_segments)
  then show ?thesis by (simp add: tok p_def)
qed

section \<open>Lemmas on the store and the handlers\<close>

lemma Map_get_set_same: "Map_get k (Map_set k v s) = Some v"
  by (induction s) auto

lemma Map_get_set_other: "k' \<noteq> k \<Longrightarrow> Map_get k' (Map_set k v s) = Map_get k' s"
  by (induction s) auto

lemma Map_get_set: "Map_get k' (Map_set k v s) = (if k' = k then Some v else Map_get k' s)"
  by (simp add: Map_get_set_same Map_get_set_other)

lemma Map_get_None: "Map_get k s = None \<longleftrightarrow> k \<notin> fst ` set s"
  by (induction s) (force split: if_splits)+

lemma Map_get_Some_mem: "Map_get k s = Some v \<Longrightarrow> (k, v) \<in> set s"
  by (induction s) (auto split: if_splits)

lemma keys_Map_set: "fst ` set (Map_set k v s) = insert k (fst ` set s)"
  by (induction s) (force split: if_splits)+

lemma distinct_Map_set: "distinct (map fst s) \<Longrightarrow> distinct (map fst (Map_set k v s))"
proof (induction s)
  case Nil
  show ?case by simp
next
  case (Cons x s)
  obtain k' v' where x: "x = (k', v')" by (cases x)
  show ?case
  proof (cases "k' = k")
    case True
    then show ?thesis using Cons.prems x by simp
  next
    case False
    have "k' \<notin> fst ` set (Map_set k v s)"
      using Cons.prems x False by (simp add: keys_Map_set)
    then show ?thesis using Cons x False by simp
  qed
qed

lemma Map_set_mem:
  "(k', v') \<in> set (Map_set k v s) \<Longrightarrow> (k' = k \<and> v' = v) \<or> (k', v') \<in> set s"
  by (induction s) (auto split: if_splits)

lemma length_Map_set:
  "length (Map_set k v s) = (if Map_get k s = None then Suc (length s) else length s)"
  by (induction s) (auto split: if_splits)

lemma count_Map_set_fresh:
  "Map_get k s = None \<Longrightarrow> length (filter (\<lambda>(k', a). k' = k) (Map_set k v s)) = 1"
  by (induction s) (auto split: if_splits)

lemma count_Map_set_present:
  "length (filter (\<lambda>(k', a). k' = k) (Map_set k v (Map_set k u s))) =
   length (filter (\<lambda>(k', a). k' = k) (Map_set k u s))"
  by (induction s) auto

lemma store_ok_Map_set:
  assumes "store_ok s" "sympla_order_id a = k"
  shows "store_ok (Map_set k a s)"
proof -
  have "\<And>k' v'. (k', v') \<in> set (Map_set k a s) \<Longrightarrow> sympla_order_id v' = k'"
    using assms Map_set_mem [of _ _ k a s] by (fastforce simp: store_ok_def list_all_iff)
  then show ?thesis
    using assms distinct_Map_set [of s k a] by (auto simp: store_ok_def list_all_iff)
qed

lemma store_ok_get: "store_ok s \<Longrightarrow> Map_get k s = Some a \<Longrightarrow> sympla_order_id a = k"
  using Map_get_Some_mem [of k s a] by (auto simp: store_ok_def list_all_iff)

lemma store_ok_handleOrderApproved:
  "store_ok s \<Longrightarrow> store_ok (handleOrderApproved secret e d s)"
  by (auto simp: handleOrderApproved_def createDonationWithConsent_def Let_def
      intro!: store_ok_Map_set split: option.splits)

lemma store_ok_handleOrderCancelled:
  "store_ok s \<Longrightarrow> store_ok (handleOrderCancelled e d s)"
  by (auto simp: handleOrderCancelled_def intro!: store_ok_Map_set dest: store_ok_get
      split: option.splits)

lemma store_ok_handleOrderRefunded:
  "store_ok s \<Longrightarrow> store_ok (handleOrderRefunded e d s)"
  by (auto simp: handleOrderRefunded_def intro!: store_ok_Map_set dest: store_ok_get
      split: option.splits)

lemma store_ok_processWebhook:
  "store_ok s \<Longrightarrow> store_ok (snd (processWebhook secret e req s))"
  by (auto simp: processWebhook_def Let_def store_ok_handleOrderApproved
      store_ok_handleOrderCancelled store_ok_handleOrderRefunded split: option.splits)

lemma store_ok_processAll:
  "store_ok s \<Longrightarrow> store_ok (processAll secret evs s)"
  by (induction evs arbitrary: s) (auto simp: store_ok_processWebhook)

lemma store_ok_distinct:
  "store_ok s \<Longrightarrow> distinct (map sympla_order_id (getDonations s))"
proof -
  assume ok: "store_ok s"
  then have eq: "map (sympla_order_id \<circ> snd) s = map fst s"
    by (auto simp: store_ok_def list_all_iff)
  show ?thesis unfolding getDonations_def map_map eq using ok by (simp add: store_ok_def)
qed

lemma processWebhook_dispatch:
  assumes "validateSignature secret (body req) (signature_header req)" "parsed e = Some p"
  shows "processWebhook secret e req s =
     (Success (responded_at e),
      if event p = ''order.approved'' then handleOrderApproved secret e (data p) s
      else if event p = ''order.cancelled'' then handleOrderCancelled e (data p) s
      else if event p = ''order.refunded'' then handleOrderRefunded e (data p) s
      else s)"
  using assms by (simp add: processWebhook_def Let_def)

lemma status_handleOrderApproved:
  "map_option status (Map_get k (handleOrderApproved secret e d s)) =
     (if k = order_identifier d
      then Some (case createDonation e (donationRequest d) of
                   Some r \<Rightarrow> COMPLETED | None \<Rightarrow> DECLINED)
      else map_option status (Map_get k s))"
  by (simp add: handleOrderApproved_def createDonationWithConsent_def Let_def Map_get_set
      split: option.splits)

lemma status_handleOrderCancelled:
  "map_option status (Map_get k (handleOrderCancelled e d s)) =
     (if k = order_identifier d then Some CANCELLED else map_option status (Map_get k s))"
  by (simp add: handleOrderCancelled_def Map_get_set split: option.splits)

lemma status_handleOrderRefunded:
  "map_option status (Map_get k (handleOrderRefunded e d s)) =
     (if k = order_identifier d then Some REFUNDED else map_option status (Map_get k s))"
  by (simp add: handleOrderRefunded_def Map_get_set split: option.splits)

lemma count_handleOrderApproved_fresh:
  "Map_get (order_identifier d) s = None \<Longrightarrow>
   length (filter (\<lambda>(k, a). k = order_identifier d) (handleOrderApproved secret e d s)) = 1"
  by (simp add: handleOrderApproved_def createDonationWithConsent_def Let_def
      count_Map_set_present count_Map_set_fresh split: option.splits)

lemma handleOrderApproved_twice:
  "order_identifier d2 = order_identifier d1 \<Longrightarrow>
   getDonations (handleOrderApproved secret e2 d2 (handleOrderApproved secret e1 d1 [])) =
   getDonations (handleOrderApproved secret e2 d2 [])"
  by (simp add: handleOrderApproved_def createDonationWithConsent_def Let_def getDonations_def
      split: option.splits)

lemma length_handleOrderApproved_empty:
  "length (getDonations (handleOrderApproved secret e d [])) = 1"
  by (simp add: handleOrderApproved_def createDonationWithConsent_def Let_def getDonations_def
      split: option.splits)

lemma validateSignature_signed_request:
  "validateSignature secret (body (signed_request secret payload))
     (signature_header (signed_request secret payload))"
  using validateSignature_signed [of secret payload] by (simp add: signed_request_def)

lemma invalid_signature_rejected:
  "\<not> validateSignature secret payload (Some ''invalid-signature'')"
  by (rule validate_short)
     (simp_all add: strip_sha256_prefix_def trim_def is_space_def lower_ascii_def unhex_def)

lemma utf8_encode_append: "utf8_encode (a @ b) = utf8_encode a @ utf8_encode b"
  by (simp add: utf8_encode_def)

lemma test_secret_nul:
  "hmac_sha256 (utf8_encode (test_secret @ [CHR 0x00])) payload =
   hmac_sha256 (utf8_encode test_secret) payload"
proof -
  have z: "char_of (0::nat) = CHR 0x00" by (simp add: char_of_eq_iff)
  have nul: "utf8_encode [CHR 0x00] = [char_of (0::nat)]"
    by (simp add: utf8_encode_def utf8_char_def z)
  have "length (utf8_encode test_secret) < 64"
    by (simp add: utf8_encode_def utf8_char_def test_secret_def)
  then show ?thesis unfolding utf8_encode_append nul by (rule hmac_key_nul)
qed

lemma signed_request_same_digest:
  "hmac_sha256 (utf8_encode other) payload = hmac_sha256 (utf8_encode secret) payload \<Longrightarrow>
   signed_request other payload = signed_request secret payload"
  by (simp add: signed_request_def)

section \<open>Claims on SignatureValidator\<close>

text \<open>
  C1, the part that holds. A header made of an optional \<^verbatim>\<open>sha256=\<close> prefix in any
  letter case, then white space, the hexadecimal HMAC-SHA256 of a payload \<open>P\<close> under the
  secret and white space again, verifies against a payload \<open>P'\<close> exactly when \<open>P'\<close> has
  the same HMAC as \<open>P\<close>. So it verifies against \<open>P\<close>, and a mutation of \<open>P\<close> is rejected
  unless it collides with \<open>P\<close> under HMAC-SHA256.
\<close>

lemma validateSignature_digest:
  assumes "list_all is_space ws1" and "list_all is_space ws2"
    and "pfx = [] \<or> map lower_ascii pfx = ''sha256=''"
  shows "validateSignature S P' (Some (pfx @ ws1 @ hex_encode (hmac_sha256 (utf8_encode S) P) @ ws2))
         = (hmac_sha256 (utf8_encode S) P = hmac_sha256 (utf8_encode S) P')"
  using assms by (rule validateSignature_header) (rule length_hmac_sha256)

text \<open>
  The sibling forms: white space in front of the bare digest is trimmed and the header
  verifies, and so does the prefixed digest with white space after the prefix.
\<close>

lemma validateSignature_sibling_forms:
  "validateSignature ''test-secret-key'' ''{}''
     (Some ('' '' @ hex_encode (hmac_sha256 (utf8_encode ''test-secret-key'') ''{}'')))"
  "validateSignature ''test-secret-key'' ''{}''
     (Some (''SHA256='' @ '' '' @ hex_encode (hmac_sha256 (utf8_encode ''test-secret-key'') ''{}'') @ '' ''))"
  using validateSignature_digest [of "'' ''" "[]" "[]" "''test-secret-key''" "''{}''" "''{}''"]
    validateSignature_digest [of "'' ''" "'' ''" "''SHA256=''" "''test-secret-key''" "''{}''" "''{}''"]
  by (simp_all add: is_space_def lower_ascii_def char_of_eq_iff)


text \<open>
  C10. The header made of the 64 hexadecimal characters of the expected digest followed
  by any text that starts with a character that is not a hexadecimal digit verifies:
  the decoding of the received value stops at that character.
\<close>

theorem validateSignature_trailing:
  assumes "unhex c = None"
  shows "validateSignature S P (Some (hex_encode (hmac_sha256 (utf8_encode S) P) @ c # rest))"
proof -
  define d where "d = hmac_sha256 (utf8_encode S) P"
  define hx where "hx = hex_encode d"
  have len: "length hx = 64" by (simp add: hx_def d_def length_hex_encode length_hmac_sha256)
  then have ne: "hx \<noteq> []" by auto
  have digits: "\<And>c. c \<in> set hx \<Longrightarrow> \<not> is_space c \<and> lower_ascii c \<noteq> CHR ''s''"
    unfolding hx_def by (simp add: hex_encode_not_space hex_encode_not_s)
  have hd_in: "hd hx \<in> set hx" and last_in: "last hx \<in> set hx" using ne by simp_all
  let ?sig = "hx @ c # rest"
  have hd_sig: "lower_ascii (hd ?sig) \<noteq> CHR ''s''" using ne digits [OF hd_in] by simp
  have strip: "strip_sha256_prefix ?sig = ?sig"
    by (rule strip_no_prefix) (use hd_sig in simp_all)
  define r where "r = trim ?sig"
  have r: "r = hx \<or> (\<exists>t. r = hx @ c # t)"
    unfolding r_def using trim_tail [OF ne] digits [OF hd_in] digits [OF last_in] by blast
  have dec: "hex_decode r = d"
    using r by (auto simp: hx_def hex_decode_encode hex_decode_encode_append hex_decode_nonhex [OF assms])
  have rne: "r \<noteq> []" using r ne by auto
  have "length (hex_decode r) = 32" by (simp add: dec d_def length_hmac_sha256)
  moreover have "trim (strip_sha256_prefix ?sig) = r" by (simp add: strip r_def)
  ultimately have "validateSignature S P (Some ?sig) = (hex_decode r = hmac_sha256 (utf8_encode S) P)"
    using rne by (intro validate_core) simp_all
  then show ?thesis by (simp add: dec hx_def d_def)
qed


theorem validateSignature_trailing_witness:
  "validateSignature ''test-secret-key'' ''{}''
     (Some (hex_encode (hmac_sha256 (utf8_encode ''test-secret-key'') ''{}'') @ ''zz''))"
  using validateSignature_trailing [of "CHR ''z''" "''test-secret-key''" "''{}''" "''z''"]
  by (simp add: unhex_def)



section \<open>Claims on TokenGenerator\<close>

text \<open>
  C6. A token made by \<^verbatim>\<open>generateDonationToken\<close> for an order and an event, validated
  with the same secret at a time \<open>t\<close>, gives the payload with that order and that event
  as long as \<open>t\<close> is at most 24 hours (86400000 ms) after the reading of the clock from
  which the expiration was computed, and \<^verbatim>\<open>null\<close> from one millisecond later on.
\<close>

theorem validateToken_generate:
  "validateToken secret t (generateDonationToken secret now1 now2 oid eid) =
     (if t > now2 + 86400000 then Null
      else Payload \<lparr>orderId = oid, eventId = eid, timestamp = now1, exp = now2 + 86400000\<rparr>)"
proof -
  define p where "p = \<lparr>orderId = oid, eventId = eid, timestamp = now1, exp = now2 + 86400000\<rparr>"
  define enc where "enc = base64url_encode (utf8_encode (JSON_stringify p))"
  have tok: "generateDonationToken secret now1 now2 oid eid = enc @ CHR ''.'' # signPayload secret enc"
    unfolding enc_def p_def by (rule generateDonationToken_shape)
  have "split_on CHR ''.'' (enc @ CHR ''.'' # signPayload secret enc) = [enc, signPayload secret enc]"
    by (rule split_on_two) (simp_all add: enc_def signPayload_no_dot base64url_encode_no_dot)
  then have "validateToken secret t (generateDonationToken secret now1 now2 oid eid) =
      (if t > exp p then Null else Payload p)"
    unfolding tok enc_def by (rule validateToken_segments)
  then show ?thesis by (simp add: p_def)
qed

theorem validateToken_generate_witness:
  "validateToken ''test-secret-key'' 1234654290000
     (generateDonationToken ''test-secret-key'' 1234567890000 1234567890000
        ''order-123'' ''event-456'') =
   Payload \<lparr>orderId = ''order-123'', eventId = ''event-456'', timestamp = 1234567890000,
            exp = 1234654290000\<rparr>
   \<and> validateToken ''test-secret-key'' 1234654290001
     (generateDonationToken ''test-secret-key'' 1234567890000 1234567890000
        ''order-123'' ''event-456'') = Null"
  using
    validateToken_generate [of "''test-secret-key''" 1234654290000 1234567890000 1234567890000
      "''order-123''" "''event-456''"]
    validateToken_generate [of "''test-secret-key''" 1234654290001 1234567890000 1234567890000
      "''order-123''" "''event-456''"]
  by simp

text \<open>
  C7, the part that holds: a token with no separator is rejected, since
  \<^verbatim>\<open>Buffer.from(undefined)\<close> throws and the exception is caught.
\<close>

lemma validateToken_no_separator:
  "CHR ''.'' \<notin> set token \<Longrightarrow> validateToken secret t token = Null"
  by (simp add: validateToken_def split_on_no_sep)

text \<open>
  C7, where the code departs from it: a token with two separators, made of a token that
  was issued, a separator and any further text, is accepted before the expiration. The
  destructuring of \<^verbatim>\<open>token.split('.')\<close> keeps the first two segments and drops the rest
  unchecked.
\<close>

theorem validateToken_third_segment_accepted:
  "validateToken ''test-secret-key'' 1
     (generateDonationToken ''test-secret-key'' 0 0 ''order-123'' ''event-456'' @ ''.x'') =
   Payload \<lparr>orderId = ''order-123'', eventId = ''event-456'', timestamp = 0, exp = 86400000\<rparr>"
  using validateToken_genuine_prefix
    [of "''test-secret-key''" 1 0 0 "''order-123''" "''event-456''" "''x''"]
  by simp

section \<open>Claims on WebhookHandler\<close>

text \<open>
  C2 as stated fails: a body signed with a different secret is not always answered with
  401. HMAC pads its key with zero bytes, so the secret followed by a NUL character signs
  every body as the secret does: the request is acknowledged with 200 and an attempt is
  stored in the empty store.
\<close>

theorem different_secret_accepted:
  "test_secret @ [CHR 0x00] \<noteq> test_secret
   \<and> status_code (fst (processWebhook test_secret (test_env ''order.approved'' True)
       (signed_request (test_secret @ [CHR 0x00]) (test_body ''order.approved'')) [])) = 200
   \<and> map status (getDonations (snd (processWebhook test_secret (test_env ''order.approved'' True)
       (signed_request (test_secret @ [CHR 0x00]) (test_body ''order.approved'')) []))) =
     [COMPLETED]"
proof -
  have same: "signed_request (test_secret @ [CHR 0x00]) (test_body ''order.approved'') =
      signed_request test_secret (test_body ''order.approved'')"
    by (rule signed_request_same_digest) (rule test_secret_nul)
  have valid: "validateSignature test_secret
      (body (signed_request test_secret (test_body ''order.approved'')))
      (signature_header (signed_request test_secret (test_body ''order.approved'')))"
    by (rule validateSignature_signed_request)
  have parsed: "parsed (test_env ''order.approved'' True) =
      Some \<lparr>event = ''order.approved'', data = test_order\<rparr>"
    by (simp add: test_env_def)
  show ?thesis
    unfolding same processWebhook_dispatch [OF valid parsed]
    by (simp add: handleOrderApproved_def createDonationWithConsent_def getDonations_def
        test_env_def Let_def)
qed

text \<open>
  C2, as amended. When the signature does not verify, \<^verbatim>\<open>processWebhook\<close> answers 401 and
  leaves the store as it was: no attempt is created or updated, and an empty store stays
  empty. A body signed with another secret is answered so exactly when its HMAC-SHA256
  under that secret differs from the one under the configured secret; when the two are
  equal the request is handled as the one signed with the configured secret.
\<close>

theorem processWebhook_unauthorized:
  "(\<not> validateSignature secret (body req) (signature_header req) \<longrightarrow>
      status_code (fst (processWebhook secret e req donationAttempts)) = 401
      \<and> snd (processWebhook secret e req donationAttempts) = donationAttempts)
   \<and> processWebhook secret e (signed_request other payload) donationAttempts =
      (if hmac_sha256 (utf8_encode other) payload = hmac_sha256 (utf8_encode secret) payload
       then processWebhook secret e (signed_request secret payload) donationAttempts
       else (Unauthorized (signature_header (signed_request other payload)) None,
             donationAttempts))"
proof (intro conjI impI)
  assume "\<not> validateSignature secret (body req) (signature_header req)"
  then show "status_code (fst (processWebhook secret e req donationAttempts)) = 401"
    and "snd (processWebhook secret e req donationAttempts) = donationAttempts"
    by (simp_all add: processWebhook_def)
next
  show "processWebhook secret e (signed_request other payload) donationAttempts =
      (if hmac_sha256 (utf8_encode other) payload = hmac_sha256 (utf8_encode secret) payload
       then processWebhook secret e (signed_request secret payload) donationAttempts
       else (Unauthorized (signature_header (signed_request other payload)) None,
             donationAttempts))"
  proof (cases "hmac_sha256 (utf8_encode other) payload = hmac_sha256 (utf8_encode secret) payload")
    case True
    then have "signed_request other payload = signed_request secret payload"
      by (rule signed_request_same_digest)
    then show ?thesis using True by simp
  next
    case False
    have "\<not> validateSignature secret (body (signed_request other payload))
        (signature_header (signed_request other payload))"
      using False validateSignature_other_secret [of secret payload other]
      by (simp add: signed_request_def)
    then show ?thesis using False by (simp add: processWebhook_def signed_request_def)
  qed
qed

theorem processWebhook_unauthorized_witness:
  "status_code (fst (processWebhook test_secret (test_env ''order.approved'' True)
       \<lparr>body = test_body ''order.approved'', signature_header = Some ''invalid-signature'',
        origin_header = None\<rparr> [])) = 401
   \<and> snd (processWebhook test_secret (test_env ''order.approved'' True)
       \<lparr>body = test_body ''order.approved'', signature_header = Some ''invalid-signature'',
        origin_header = None\<rparr> []) = []
   \<and> processWebhook test_secret (test_env ''order.approved'' True)
       (signed_request (test_secret @ [CHR 0x00]) (test_body ''order.approved'')) [] =
     processWebhook test_secret (test_env ''order.approved'' True)
       (signed_request test_secret (test_body ''order.approved'')) []"
  using processWebhook_unauthorized [of test_secret
      "\<lparr>body = test_body ''order.approved'', signature_header = Some ''invalid-signature'',
        origin_header = None\<rparr>" "test_env ''order.approved'' True" "[]"
      "test_secret @ [CHR 0x00]" "test_body ''order.approved''"]
  by (simp add: invalid_signature_rejected test_secret_nul)

text \<open>
  C3. After a verified \<^verbatim>\<open>order.approved\<close> event whose order identifier is not in the store,
  the store holds exactly one attempt under that identifier, and its status is
  \<open>COMPLETED\<close> when the gateway call succeeds and \<open>DECLINED\<close> when it fails.
\<close>

theorem processWebhook_approved_fresh:
  assumes "validateSignature secret (body req) (signature_header req)"
    and "parsed e = Some payload" and "event payload = ''order.approved''"
    and "Map_get (order_identifier (data payload)) donationAttempts = None"
  shows "length (filter (\<lambda>(k, a). k = order_identifier (data payload))
                  (snd (processWebhook secret e req donationAttempts))) = 1
       \<and> map_option status
            (Map_get (order_identifier (data payload))
               (snd (processWebhook secret e req donationAttempts))) =
          Some (case createDonation e (donationRequest (data payload)) of
                  Some r \<Rightarrow> COMPLETED | None \<Rightarrow> DECLINED)"
  using assms
  by (simp add: processWebhook_dispatch [OF assms(1,2)] count_handleOrderApproved_fresh
      status_handleOrderApproved)

theorem processWebhook_approved_fresh_witness:
  "length (filter (\<lambda>(k, a). k = ''order-123'')
       (snd (processWebhook test_secret (test_env ''order.approved'' True)
          (signed_request test_secret (test_body ''order.approved'')) []))) = 1
   \<and> map_option status (Map_get ''order-123''
       (snd (processWebhook test_secret (test_env ''order.approved'' True)
          (signed_request test_secret (test_body ''order.approved'')) []))) = Some COMPLETED
   \<and> map_option status (Map_get ''order-123''
       (snd (processWebhook test_secret (test_env ''order.approved'' False)
          (signed_request test_secret (test_body ''order.approved'')) []))) = Some DECLINED"
  using processWebhook_approved_fresh [of test_secret
      "signed_request test_secret (test_body ''order.approved'')"
      "test_env ''order.approved'' True" "\<lparr>event = ''order.approved'', data = test_order\<rparr>" "[]"]
    processWebhook_approved_fresh [of test_secret
      "signed_request test_secret (test_body ''order.approved'')"
      "test_env ''order.approved'' False" "\<lparr>event = ''order.approved'', data = test_order\<rparr>" "[]"]
  by (simp add: validateSignature_signed_request test_env_def test_order_def)

text \<open>
  C4. For a request whose signature verifies and whose body parses, \<^verbatim>\<open>processWebhook\<close>
  answers 200 with the success acknowledgment, whatever the event and also when the
  gateway call fails; the failure is recorded on the attempt as \<open>DECLINED\<close>.
\<close>

theorem processWebhook_acknowledges:
  assumes "validateSignature secret (body req) (signature_header req)"
    and "parsed e = Some payload"
  shows "fst (processWebhook secret e req donationAttempts) = Success (responded_at e)
       \<and> status_code (fst (processWebhook secret e req donationAttempts)) = 200
       \<and> (event payload = ''order.approved''
            \<and> createDonation e (donationRequest (data payload)) = None \<longrightarrow>
          map_option status
            (Map_get (order_identifier (data payload))
               (snd (processWebhook secret e req donationAttempts))) = Some DECLINED)"
  by (simp add: processWebhook_dispatch [OF assms] status_handleOrderApproved)

theorem processWebhook_acknowledges_witness:
  "fst (processWebhook test_secret (test_env ''order.approved'' False)
      (signed_request test_secret (test_body ''order.approved'')) []) = Success 2000
   \<and> status_code (fst (processWebhook test_secret (test_env ''order.approved'' False)
      (signed_request test_secret (test_body ''order.approved'')) [])) = 200
   \<and> map_option status (Map_get ''order-123''
       (snd (processWebhook test_secret (test_env ''order.approved'' False)
          (signed_request test_secret (test_body ''order.approved'')) []))) = Some DECLINED"
  using processWebhook_acknowledges [of test_secret
      "signed_request test_secret (test_body ''order.approved'')"
      "test_env ''order.approved'' False" "\<lparr>event = ''order.approved'', data = test_order\<rparr>" "[]"]
  by (simp add: validateSignature_signed_request test_env_def test_order_def)

text \<open>
  C5. Two verified \<^verbatim>\<open>order.approved\<close> events for the same order identifier, handled from
  the empty store, leave exactly one attempt, the one of the second event; and after any
  sequence of requests from the empty store no two attempts of \<^verbatim>\<open>getDonations\<close> have the
  same order identifier.
\<close>

theorem duplicate_approved_overwrites:
  assumes "validateSignature secret (body r1) (signature_header r1)"
    and "validateSignature secret (body r2) (signature_header r2)"
    and "parsed e1 = Some p1" and "parsed e2 = Some p2"
    and "event p1 = ''order.approved''" and "event p2 = ''order.approved''"
    and "order_identifier (data p2) = order_identifier (data p1)"
  shows "length (getDonations (processAll secret [(e1, r1), (e2, r2)] [])) = 1
       \<and> map attempt_id (getDonations (processAll secret [(e1, r1), (e2, r2)] [])) = [uuid e2]
       \<and> distinct (map sympla_order_id (getDonations (processAll secret evs [])))"
proof -
  have run: "processAll secret [(e1, r1), (e2, r2)] [] =
      handleOrderApproved secret e2 (data p2) (handleOrderApproved secret e1 (data p1) [])"
    using assms(5,6)
    by (simp add: processWebhook_dispatch [OF assms(1,3)] processWebhook_dispatch [OF assms(2,4)])
  have two: "getDonations (processAll secret [(e1, r1), (e2, r2)] []) =
      getDonations (handleOrderApproved secret e2 (data p2) [])"
    unfolding run using assms(7) by (rule handleOrderApproved_twice)
  have "store_ok (processAll secret evs [])"
    by (rule store_ok_processAll) (simp add: store_ok_def)
  then have "distinct (map sympla_order_id (getDonations (processAll secret evs [])))"
    by (rule store_ok_distinct)
  moreover have "map attempt_id (getDonations (handleOrderApproved secret e2 (data p2) [])) = [uuid e2]"
    by (simp add: handleOrderApproved_def createDonationWithConsent_def Let_def getDonations_def
        split: option.splits)
  ultimately show ?thesis unfolding two by (simp add: length_handleOrderApproved_empty)
qed

theorem duplicate_approved_overwrites_witness:
  "length (getDonations (processAll test_secret
      [(test_env ''order.approved'' False, signed_request test_secret (test_body ''order.approved'')),
       ((test_env ''order.approved'' True)\<lparr>uuid := ''second-uuid''\<rparr>,
        signed_request test_secret (test_body ''order.approved''))] [])) = 1
   \<and> map attempt_id (getDonations (processAll test_secret
      [(test_env ''order.approved'' False, signed_request test_secret (test_body ''order.approved'')),
       ((test_env ''order.approved'' True)\<lparr>uuid := ''second-uuid''\<rparr>,
        signed_request test_secret (test_body ''order.approved''))] [])) = [''second-uuid'']
   \<and> distinct (map sympla_order_id (getDonations (processAll test_secret
      [(test_env ''order.cancelled'' True, signed_request test_secret (test_body ''order.cancelled'')),
       (test_env ''order.approved'' True, signed_request test_secret (test_body ''order.approved'')),
       (test_env ''order.refunded'' True, signed_request test_secret (test_body ''order.refunded''))]
      [])))"
  using duplicate_approved_overwrites [of test_secret
      "signed_request test_secret (test_body ''order.approved'')"
      "signed_request test_secret (test_body ''order.approved'')"
      "test_env ''order.approved'' False" "\<lparr>event = ''order.approved'', data = test_order\<rparr>"
      "(test_env ''order.approved'' True)\<lparr>uuid := ''second-uuid''\<rparr>"
      "\<lparr>event = ''order.approved'', data = test_order\<rparr>"
      "[(test_env ''order.cancelled'' True, signed_request test_secret (test_body ''order.cancelled'')),
        (test_env ''order.approved'' True, signed_request test_secret (test_body ''order.approved'')),
        (test_env ''order.refunded'' True, signed_request test_secret (test_body ''order.refunded''))]"]
  by (simp add: validateSignature_signed_request test_env_def)

text \<open>
  C9 as stated fails: an attempt that is \<open>COMPLETED\<close> after its \<^verbatim>\<open>order.approved\<close> event
  is \<open>CANCELLED\<close> after an \<^verbatim>\<open>order.cancelled\<close> event for the same order.
\<close>

theorem cancelled_after_completed:
  "getDonations (processAll test_secret
      [(test_env ''order.approved'' True, signed_request test_secret (test_body ''order.approved''))]
      []) = [test_attempt]
   \<and> map status (getDonations (processAll test_secret
      [(test_env ''order.approved'' True, signed_request test_secret (test_body ''order.approved'')),
       (test_env ''order.cancelled'' True, signed_request test_secret (test_body ''order.cancelled''))]
      [])) = [CANCELLED]"
  by (simp add: processWebhook_def validateSignature_signed_request test_env_def test_order_def
      test_attempt_def handleOrderApproved_def createDonationWithConsent_def
      handleOrderCancelled_def getDonations_def full_name_def Let_def)

text \<open>
  C9, as amended. The status of a stored attempt after a request: it is unchanged when
  the request is rejected, does not parse, is for another order identifier, or is an
  \<^verbatim>\<open>order.created\<close> or unrecognised event; an \<^verbatim>\<open>order.cancelled\<close> event for its
  identifier sets it to \<open>CANCELLED\<close> and an \<^verbatim>\<open>order.refunded\<close> event to \<open>REFUNDED\<close>,
  whatever it was; an \<^verbatim>\<open>order.approved\<close> event replaces the attempt, which ends
  \<open>COMPLETED\<close> or \<open>DECLINED\<close> with the gateway call. No state is terminal.
\<close>

theorem status_after_event:
  assumes "Map_get k donationAttempts = Some a"
  shows "map_option status (Map_get k (snd (processWebhook secret e req donationAttempts))) =
     Some (case parsed e of
             None \<Rightarrow> status a
           | Some payload \<Rightarrow>
               if validateSignature secret (body req) (signature_header req)
                  \<and> order_identifier (data payload) = k
               then (if event payload = ''order.approved''
                       then (case createDonation e (donationRequest (data payload)) of
                               Some r \<Rightarrow> COMPLETED | None \<Rightarrow> DECLINED)
                     else if event payload = ''order.cancelled'' then CANCELLED
                     else if event payload = ''order.refunded'' then REFUNDED
                     else status a)
               else status a)"
proof (cases "validateSignature secret (body req) (signature_header req)")
  case False
  then show ?thesis using assms by (simp add: processWebhook_def split: option.splits)
next
  case True
  show ?thesis
  proof (cases "parsed e")
    case None
    then show ?thesis using True assms by (simp add: processWebhook_def)
  next
    case (Some payload)
    show ?thesis
      using assms
      by (simp add: processWebhook_dispatch [OF True Some] Some True status_handleOrderApproved
          status_handleOrderCancelled status_handleOrderRefunded del: map_option_eq_Some)
  qed
qed

theorem status_after_event_witness:
  "map_option status (Map_get ''order-123''
      (snd (processWebhook test_secret (test_env ''order.refunded'' True)
         (signed_request test_secret (test_body ''order.refunded''))
         [(''order-123'', test_attempt)]))) = Some REFUNDED
   \<and> map_option status (Map_get ''order-123''
      (snd (processWebhook test_secret (test_env ''order.created'' True)
         (signed_request test_secret (test_body ''order.created''))
         [(''order-123'', test_attempt)]))) = Some COMPLETED"
  using status_after_event [of "''order-123''" "[(''order-123'', test_attempt)]" test_attempt
      test_secret "test_env ''order.refunded'' True"
      "signed_request test_secret (test_body ''order.refunded'')"]
    status_after_event [of "''order-123''" "[(''order-123'', test_attempt)]" test_attempt
      test_secret "test_env ''order.created'' True"
      "signed_request test_secret (test_body ''order.created'')"]
  by (simp add: validateSignature_signed_request test_env_def test_order_def test_attempt_def)

end
